theory Spec2Isabelle
  imports Main "HOL-Library.Word"
begin

unbundle bit_operations_syntax

section \<open>C strings and the libc routines used by recovery.cpp\<close>

text \<open>
  Bytes are \<^typ>\<open>char\<close>. A buffer is a list of bytes whose length is the size of the C
  array. A C string value (the result of \<open>strdup\<close>, a string literal, an element of
  \<open>argv\<close>) is the list of its bytes without the terminating NUL. A \<open>char *\<close> that may
  be NULL is a \<^typ>\<open>string option\<close>.
\<close>

abbreviation NUL :: char where "NUL \<equiv> CHR 0x00"
abbreviation NL :: char where "NL \<equiv> CHR 0x0A"
abbreviation CR :: char where "CR \<equiv> CHR 0x0D"

type_synonym cptr = "string option"

datatype fault = NullDereference | OutOfBounds

text \<open>The string that starts at the beginning of a buffer: the bytes before the first NUL.\<close>

definition cstr :: "char list \<Rightarrow> string" where
  "cstr buf = takeWhile (\<lambda>c. c \<noteq> NUL) buf"

text \<open>
  \<open>strlcpy(dst, src, siz)\<close>: at most \<open>siz - 1\<close> bytes of \<open>src\<close>, then a NUL; the bytes of
  \<open>dst\<close> behind the NUL stay as they are.
\<close>

definition strlcpy :: "char list \<Rightarrow> string \<Rightarrow> nat \<Rightarrow> char list" where
  "strlcpy dst src siz =
     (if siz = 0 then dst
      else let s = take (siz - 1) src in s @ NUL # drop (length s + 1) dst)"

text \<open>
  \<open>strlcat(dst, src, siz)\<close>: the end of \<open>dst\<close> is looked for in its first \<open>siz\<close> bytes; when
  there is no NUL among them nothing is written. Otherwise as much of \<open>src\<close> as leaves
  room for the NUL is appended.
\<close>

definition strlcat :: "char list \<Rightarrow> string \<Rightarrow> nat \<Rightarrow> char list" where
  "strlcat dst src siz =
     (let dlen = length (cstr (take siz dst)) in
      if dlen = siz then dst
      else let s = take (siz - dlen - 1) src
           in take dlen dst @ s @ NUL # drop (dlen + length s + 1) dst)"

text \<open>
  \<open>strtok\<close> on the buffer \<open>buf\<close>, continuing at index \<open>p\<close> (the saved pointer; 0 for a
  call with a fresh string). Leading delimiters are skipped; when the string ends there,
  the result is NULL (\<open>None\<close>). Otherwise the token runs to the next delimiter, which is
  overwritten by NUL, or to the end of the string. The result is the token, the buffer
  and the new saved pointer.
\<close>

definition strtok :: "char list \<Rightarrow> nat \<Rightarrow> string \<Rightarrow> (string \<times> char list \<times> nat) option" where
  "strtok buf p delim =
     (let s = cstr (drop p buf);
          k = length (takeWhile (\<lambda>c. c \<in> set delim) s);
          t = takeWhile (\<lambda>c. c \<notin> set delim) (drop k s);
          e = p + k + length t
      in if t = [] then None
         else if k + length t < length s then Some (t, buf[e := NUL], e + 1)
         else Some (t, buf, e))"

text \<open>
  \<open>fgets(buf, n, fp)\<close> on the unread rest \<open>s\<close> of a file: NULL at the end of the file,
  otherwise at most \<open>n - 1\<close> bytes, up to and including the first newline, and the
  rest of the file.
\<close>

definition fgets :: "nat \<Rightarrow> string \<Rightarrow> (string \<times> string) option" where
  "fgets n s =
     (if s = [] then None
      else let pre = takeWhile (\<lambda>c. c \<noteq> NL) (take (n - 1) s);
               line = (if length pre < n - 1 \<and> length pre < length s
                       then take (length pre + 1) s else pre)
           in Some (line, drop (length line) s))"

section \<open>The bootloader control block and get_args\<close>

text \<open>
  \<open>struct bootloader_message\<close> is declared in bootloader.h, which is not among the
  sources. Its three fields are byte arrays; the size of each array is the length of the
  list, so \<open>sizeof(boot.recovery)\<close> is \<open>length (recovery boot)\<close>.
\<close>

record bootloader_message =
  command :: "char list"
  status :: "char list"
  recovery :: "char list"

definition MAX_ARG_LENGTH :: nat where "MAX_ARG_LENGTH = 4096"
definition MAX_ARGS :: nat where "MAX_ARGS = 100"

text \<open>
  The loop \<open>for (*argc = 1; *argc < MAX_ARGS; ++*argc)\<close> over the control block: each
  round takes the next token of \<open>boot.recovery\<close>; the result is the list of the copies
  stored in \<open>argv[argc..]\<close> and the buffer as \<open>strtok\<close> leaves it.
\<close>

function bcb_loop :: "nat \<Rightarrow> char list \<Rightarrow> nat \<Rightarrow> string list \<times> char list" where
  "bcb_loop argc buf p =
     (if argc < MAX_ARGS then
        (case strtok buf p [NL] of
           None \<Rightarrow> ([], buf)
         | Some (arg, buf', p') \<Rightarrow>
             (let (args, b) = bcb_loop (argc + 1) buf' p' in (arg # args, b)))
      else ([], buf))"
  by pat_completeness auto
termination
  by (relation "measure (\<lambda>(argc, buf, p). MAX_ARGS - argc)") auto

text \<open>
  The loop over the command file: \<open>fgets\<close> into \<open>buf\<close>, then
  \<open>strdup(strtok(buf, "\r\n"))\<close>. \<open>strdup\<close> reads its argument, so a NULL from \<open>strtok\<close>
  is a null dereference.
\<close>

function command_file_loop :: "nat \<Rightarrow> string \<Rightarrow> fault + cptr list" where
  "command_file_loop argc s =
     (if argc < MAX_ARGS then
        (case fgets MAX_ARG_LENGTH s of
           None \<Rightarrow> Inr []
         | Some (line, rest) \<Rightarrow>
             (case strtok (line @ [NUL]) 0 [CR, NL] of
                None \<Rightarrow> Inl NullDereference
              | Some (arg, _, _) \<Rightarrow>
                  (case command_file_loop (argc + 1) rest of
                     Inl f \<Rightarrow> Inl f
                   | Inr args \<Rightarrow> Inr (Some arg # args))))
      else Inr [])"
  by pat_completeness auto
termination
  by (relation "measure (\<lambda>(argc, s). MAX_ARGS - argc)") auto

text \<open>
  The loop \<open>for (i = 1; i < *argc; ++i)\<close> that writes the arguments back:
  \<open>strlcat\<close> of the argument, then of a newline. \<open>strlcat\<close> reads its source, so a NULL
  argument is a null dereference.
\<close>

fun write_args :: "char list \<Rightarrow> cptr list \<Rightarrow> fault + char list" where
  "write_args buf [] = Inr buf"
| "write_args buf (None # as) = Inl NullDereference"
| "write_args buf (Some a # as) =
     write_args (strlcat (strlcat buf a (length buf)) [NL] (length buf)) as"

text \<open>
  \<open>get_args(&argc, &argv)\<close>. \<open>boot\<close> is the structure after \<open>memset\<close> and
  \<open>get_bootloader_message\<close> (all zero when that call failed); \<open>cmdfile\<close> is what
  \<open>fopen_path(COMMAND_FILE, "r")\<close> gives: \<open>None\<close> for NULL, otherwise the content of the
  file; \<open>argv\<close> holds the \<open>argc\<close> live arguments. The result is the new \<open>argv\<close>
  (\<open>argc\<close> is its length) and the structure handed to \<open>set_bootloader_message\<close>.
  \<open>argv[argc]\<close> is NULL, so \<open>(*argv)[0]\<close> of an empty \<open>argv\<close> is \<open>None\<close>.
\<close>

definition from_bcb :: "bootloader_message \<Rightarrow> cptr list \<Rightarrow> cptr list \<times> bootloader_message" where
  "from_bcb boot argv =
     (if length argv \<le> 1 then
        (let r = (recovery boot)[length (recovery boot) - 1 := NUL] in
         case strtok r 0 [NL] of
           None \<Rightarrow> (argv, boot\<lparr>recovery := r\<rparr>)
         | Some (arg, r', p) \<Rightarrow>
             if arg = ''recovery''
             then (let (args, r'') = bcb_loop 1 r' p
                   in (Some arg # map Some args, boot\<lparr>recovery := r''\<rparr>))
             else (argv, boot\<lparr>recovery := r'\<rparr>))
      else (argv, boot))"

definition from_command_file :: "string option \<Rightarrow> cptr list \<Rightarrow> fault + cptr list" where
  "from_command_file cmdfile argv =
     (if length argv \<le> 1 then
        (case cmdfile of
           None \<Rightarrow> Inr argv
         | Some content \<Rightarrow>
             (let argv0 = (case argv of [] \<Rightarrow> None | a # _ \<Rightarrow> a) in
              case command_file_loop 1 content of
                Inl f \<Rightarrow> Inl f
              | Inr args \<Rightarrow> Inr (argv0 # args)))
      else Inr argv)"

definition get_args ::
  "bootloader_message \<Rightarrow> string option \<Rightarrow> cptr list \<Rightarrow> fault + (cptr list \<times> bootloader_message)"
where
  "get_args boot cmdfile argv =
     (let (argv1, boot1) = from_bcb boot argv in
      case from_command_file cmdfile argv1 of
        Inl f \<Rightarrow> Inl f
      | Inr argv2 \<Rightarrow>
          (let c = strlcpy (command boot1) ''boot-recovery'' (length (command boot1));
               r = strlcpy (recovery boot1) (''recovery'' @ [NL]) (length (recovery boot1))
           in case write_args r (drop 1 argv2) of
                Inl f \<Rightarrow> Inl f
              | Inr r' \<Rightarrow> Inr (argv2, boot1\<lparr>command := c, recovery := r'\<rparr>)))"

section \<open>The ext4 superblock reader\<close>

text \<open>
  ext4.h and ext4_utils.h are not among the sources. Of \<open>struct ext4_super_block\<close> the
  code reads \<open>s_magic\<close> and \<open>s_state\<close>; of the globals \<open>info\<close> and \<open>aux_info\<close>, which
  \<open>ext4_parse_sb\<close> fills, it reads the four fields below. The size of the superblock
  structure, its layout and \<open>ext4_parse_sb\<close> are parameters.
\<close>

record ext4_super_block =
  s_magic :: "16 word"
  s_state :: "16 word"

record fs_info =
  len :: "64 word"
  block_size :: "32 word"

record fs_aux_info =
  first_data_block :: "32 word"
  bg_desc_blocks :: "32 word"

text \<open>
  Modelled from the spec: ext4.h is not among the sources; the spec calls these the ext4
  signature and the filesystem-valid state bit. The values are those of the on-disk
  format.
\<close>

definition EXT4_SUPER_MAGIC :: "16 word" where "EXT4_SUPER_MAGIC = 0xEF53"
definition EXT4_VALID_FS :: "16 word" where "EXT4_VALID_FS = 0x0001"

text \<open>
  The open device and the absent declarations. \<open>dev_read off n\<close> is a \<open>read\<close> of \<open>n\<close>
  bytes with the file position at \<open>off\<close>: \<open>None\<close> when it fails, otherwise the bytes
  delivered (at most \<open>n\<close> of them are taken).
\<close>

record ext4_env =
  dev_read :: "nat \<Rightarrow> nat \<Rightarrow> char list option"
  sb_size :: nat
  sb_of_bytes :: "char list \<Rightarrow> ext4_super_block"
  ext4_parse_sb :: "ext4_super_block \<Rightarrow> fs_info \<times> fs_aux_info"

definition test_sb :: "ext4_super_block \<Rightarrow> int" where
  "test_sb sb =
     (if s_magic sb \<noteq> EXT4_SUPER_MAGIC then - 1
      else if (s_state sb AND EXT4_VALID_FS) \<noteq> EXT4_VALID_FS then - 1
      else 0)"

text \<open>\<open>lseek64(fd, off, SEEK_SET)\<close>: the new position, or -1 for a negative offset.\<close>

definition lseek64 :: "int \<Rightarrow> int" where
  "lseek64 off = (if off < 0 then - 1 else off)"

text \<open>
  \<open>read_ext(fd)\<close>. The result is the returned \<open>int\<close> and the reads that were issued, as
  pairs of position and byte count. \<open>return info.len\<close> converts the 64-bit length to
  \<open>int\<close>, which keeps its low 32 bits.
\<close>

definition read_ext :: "ext4_env \<Rightarrow> int \<times> (nat \<times> nat) list" where
  "read_ext env =
     (if lseek64 1024 < 0 then (- 1, [])
      else
        let rd1 = [(1024, sb_size env)] in
        case dev_read env 1024 (sb_size env) of
          None \<Rightarrow> (- 1, rd1)
        | Some bytes \<Rightarrow>
            if length (take (sb_size env) bytes) \<noteq> sb_size env then (- 1, rd1)
            else
              let sb = sb_of_bytes env (take (sb_size env) bytes) in
              if test_sb sb \<noteq> 0 then (- 1, rd1)
              else
                let (info, aux_info) = ext4_parse_sb env sb in
                if lseek64 (sint (len info)) < 0 then (- 1, rd1)
                else
                  let off = block_size info * (first_data_block aux_info + 1) in
                  if lseek64 (uint off) < 0 then (- 1, rd1)
                  else
                    let n = block_size info * bg_desc_blocks aux_info;
                        rd2 = rd1 @ [(unat off, unat n)]
                    in (case dev_read env (unat off) (unat n) of
                          None \<Rightarrow> (- 1, rd2)
                        | Some d \<Rightarrow>
                            if int (length (take (unat n) d)) \<noteq> sint n then (- 1, rd2)
                            else (sint (ucast (len info) :: 32 word), rd2)))"

text \<open>
  \<open>get_fs_total_size(devname)\<close>. The argument is what \<open>open\<close> gives: \<open>None\<close> when it
  fails. The result type \<open>size_t\<close> is an unsigned word of the platform's width; the
  \<open>int\<close> from \<open>read_ext\<close> is converted to it.
\<close>

definition get_fs_total_size :: "ext4_env option \<Rightarrow> 's::len word" where
  "get_fs_total_size fd =
     (case fd of
        None \<Rightarrow> - 1
      | Some env \<Rightarrow>
          let size = (word_of_int (fst (read_ext env)) :: 's word) in
          if size < 0 then - 1 else size)"

section \<open>Cloning the backup partition\<close>

record MtdPartition =
  device_index :: int
  size_mtd :: "32 word"
  erase_size :: "32 word"
  name :: string

definition DATA_PARTITION_NAME :: string where "DATA_PARTITION_NAME = ''userdata''"
definition DATABK_PARTITION_NAME :: string where "DATABK_PARTITION_NAME = ''databk''"

text \<open>\<open>%d\<close> of \<open>sprintf\<close>.\<close>

function dec :: "nat \<Rightarrow> string" where
  "dec n = (if n < 10 then [''0123456789'' ! n] else dec (n div 10) @ [''0123456789'' ! (n mod 10)])"
  by pat_completeness auto
termination
  by (relation "measure id") auto

definition printf_d :: "int \<Rightarrow> string" where
  "printf_d i = (if i < 0 then CHR ''-'' # dec (nat (- i)) else dec (nat i))"

text \<open>
  What the routine gets from outside: the content of /proc/mtd (\<open>None\<close> when \<open>open\<close>
  or \<open>read\<close> fails, so that \<open>read\<close> returns -1), the result of
  \<open>mtd_scan_partitions\<close>, the partition table as \<open>mtd_find_partition_by_name\<close>, and
  \<open>simg2img\<close>, which acts on the block devices \<open>'w\<close>.
\<close>

record 'w mtd_env =
  proc_mtd :: "string option"
  mtd_scan_partitions :: int
  mtd_find_partition_by_name :: "string \<Rightarrow> MtdPartition option"
  simg2img :: "string \<Rightarrow> string \<Rightarrow> 'w \<Rightarrow> int \<times> 'w"

definition start_to_clone :: "'w mtd_env \<Rightarrow> string \<Rightarrow> string \<Rightarrow> 'w \<Rightarrow> int \<times> 'w" where
  "start_to_clone env data_devname databk_devname w =
     (let (r, w') = simg2img env databk_devname data_devname w in
      if r \<noteq> 0 then (- 1, w') else (0, w'))"

text \<open>
  \<open>clone_data_if_exist()\<close>. \<open>buf[nbytes] = '\0'\<close> stores outside \<open>buf\<close> when the read
  has failed.
\<close>

definition clone_data_if_exist :: "'w mtd_env \<Rightarrow> 'w \<Rightarrow> fault + (int \<times> 'w)" where
  "clone_data_if_exist env w =
     (let nbytes = (case proc_mtd env of None \<Rightarrow> - 1 | Some c \<Rightarrow> int (length (take 2047 c))) in
      if nbytes < 0 \<or> 2048 \<le> nbytes then Inl OutOfBounds
      else if mtd_scan_partitions env \<le> 0 then Inr (- 1, w)
      else
        case mtd_find_partition_by_name env DATABK_PARTITION_NAME of
          None \<Rightarrow> Inr (- 1, w)
        | Some databk_partition \<Rightarrow>
            (case mtd_find_partition_by_name env DATA_PARTITION_NAME of
               None \<Rightarrow> Inr (- 1, w)
             | Some data_partition \<Rightarrow>
                 let data_devname = ''/dev/block/mtdblock'' @ printf_d (device_index data_partition);
                     databk_devname = ''/dev/block/mtdblock'' @ printf_d (device_index databk_partition);
                     (r, w') = start_to_clone env data_devname databk_devname w
                 in if r \<noteq> 0 then Inr (- 1, w') else Inr (0, w')))"

section \<open>The menu loop\<close>






section \<open>Files, the cache volume and the log\<close>

text \<open>
  A file has its bytes, its permission bits and its owner (user and group). The files
  of all volumes are held by path.
\<close>

record fs_file =
  f_data :: string
  f_mode :: nat
  f_owner :: "nat \<times> nat"

datatype cache_state = Unmountable | Unmounted | Mounted

text \<open>
  The state that \<open>finish_recovery\<close>, \<open>copy_log_file\<close> and \<open>erase_volume\<close> work on: the
  file store, the cache volume, the mode and owner that a file created by this process
  gets, the control block in its storage, and the globals of recovery.cpp.
  \<open>tmplog_offset\<close> is a \<open>long\<close> that only ever holds 0 or a file position.
\<close>

record recovery_state =
  files :: "string \<Rightarrow> fs_file option"
  cache :: cache_state
  new_mode :: nat
  new_owner :: "nat \<times> nat"
  bcb :: bootloader_message
  tmplog_offset :: nat
  locale' :: "string option"
  bClearbootmessage :: bool
  bAutoUpdateComplete :: bool
  updatepath :: string

definition COMMAND_FILE :: string where "COMMAND_FILE = ''/cache/recovery/command''"
definition FLAG_FILE :: string where "FLAG_FILE = ''/cache/recovery/last_flag''"
definition INTENT_FILE :: string where "INTENT_FILE = ''/cache/recovery/intent''"
definition LOG_FILE :: string where "LOG_FILE = ''/cache/recovery/log''"
definition LAST_LOG_FILE :: string where "LAST_LOG_FILE = ''/cache/recovery/last_log''"
definition LAST_INSTALL_FILE :: string where "LAST_INSTALL_FILE = ''/cache/recovery/last_install''"
definition LOCALE_FILE :: string where "LOCALE_FILE = ''/cache/recovery/last_locale''"
definition CACHE_ROOT :: string where "CACHE_ROOT = ''/cache''"
definition TEMPORARY_LOG_FILE :: string where "TEMPORARY_LOG_FILE = ''/tmp/recovery.log''"
definition TEMPORARY_INSTALL_FILE :: string where "TEMPORARY_INSTALL_FILE = ''/tmp/last_install''"

text \<open>
  Modelled from the spec: roots.cpp is not among the sources. \<open>ensure_path_mounted\<close>
  mounts the volume of a path on demand and returns 0, or -1 when that fails;
  \<open>ensure_path_unmounted\<close> unmounts it. The cache volume is the one volume whose
  mounting is modelled; paths elsewhere (the files under /tmp) are always there.
\<close>

definition on_cache :: "string \<Rightarrow> bool" where
  "on_cache path = (path = ''/cache'' \<or> take 7 path = ''/cache/'')"

definition ensure_path_mounted :: "string \<Rightarrow> recovery_state \<Rightarrow> int \<times> recovery_state" where
  "ensure_path_mounted path s =
     (if on_cache path then
        (case cache s of
           Unmountable \<Rightarrow> (- 1, s)
         | Unmounted \<Rightarrow> (0, s\<lparr>cache := Mounted\<rparr>)
         | Mounted \<Rightarrow> (0, s))
      else (0, s))"

definition ensure_path_unmounted :: "string \<Rightarrow> recovery_state \<Rightarrow> int \<times> recovery_state" where
  "ensure_path_unmounted path s =
     (if on_cache path \<and> cache s = Mounted then (0, s\<lparr>cache := Unmounted\<rparr>) else (0, s))"

text \<open>A file on the cache volume can be reached only while the volume is mounted.\<close>

definition lookup :: "recovery_state \<Rightarrow> string \<Rightarrow> fs_file option" where
  "lookup s path = (if on_cache path \<and> cache s \<noteq> Mounted then None else files s path)"

text \<open>
  \<open>fopen(path, mode)\<close> for the modes used: "r" needs the file, "w" creates it or cuts
  it to length zero, "a" creates it when it is not there. The result says whether the
  stream is not NULL.
\<close>

definition fopen :: "string \<Rightarrow> char \<Rightarrow> recovery_state \<Rightarrow> bool \<times> recovery_state" where
  "fopen path m s =
     (if on_cache path \<and> cache s \<noteq> Mounted then (False, s)
      else if m = CHR ''r'' then (files s path \<noteq> None, s)
      else
        (case files s path of
           None \<Rightarrow>
             (True, s\<lparr>files := (files s)(path \<mapsto> \<lparr>f_data = [], f_mode = new_mode s, f_owner = new_owner s\<rparr>)\<rparr>)
         | Some f \<Rightarrow>
             if m = CHR ''w'' then (True, s\<lparr>files := (files s)(path \<mapsto> f\<lparr>f_data := []\<rparr>)\<rparr>)
             else (True, s)))"

definition fopen_path :: "string \<Rightarrow> char \<Rightarrow> recovery_state \<Rightarrow> bool \<times> recovery_state" where
  "fopen_path path m s =
     (let (r, s1) = ensure_path_mounted path s in
      if r \<noteq> 0 then (False, s1) else fopen path m s1)"

text \<open>Writing to an open stream appends to the file.\<close>

definition fwrite :: "string \<Rightarrow> string \<Rightarrow> recovery_state \<Rightarrow> recovery_state" where
  "fwrite bs path s =
     (case files s path of
        None \<Rightarrow> s
      | Some f \<Rightarrow> s\<lparr>files := (files s)(path \<mapsto> f\<lparr>f_data := f_data f @ bs\<rparr>)\<rparr>)"

definition chmod :: "string \<Rightarrow> nat \<Rightarrow> recovery_state \<Rightarrow> recovery_state" where
  "chmod path m s =
     (case lookup s path of
        None \<Rightarrow> s
      | Some f \<Rightarrow> s\<lparr>files := (files s)(path \<mapsto> f\<lparr>f_mode := m\<rparr>)\<rparr>)"

definition chown :: "string \<Rightarrow> nat \<Rightarrow> nat \<Rightarrow> recovery_state \<Rightarrow> recovery_state" where
  "chown path u g s =
     (case lookup s path of
        None \<Rightarrow> s
      | Some f \<Rightarrow> s\<lparr>files := (files s)(path \<mapsto> f\<lparr>f_owner := (u, g)\<rparr>)\<rparr>)"

definition unlink :: "string \<Rightarrow> recovery_state \<Rightarrow> recovery_state" where
  "unlink path s =
     (if on_cache path \<and> cache s \<noteq> Mounted then s
      else s\<lparr>files := (files s)(path := None)\<rparr>)"

text \<open>
  The loop \<open>while (fgets(buf, sizeof(buf), tmplog)) fputs(buf, log)\<close> on the unread rest
  of the source: what it writes. \<open>fputs\<close> writes the line up to its first NUL.
\<close>

function copy_lines :: "string \<Rightarrow> string" where
  "copy_lines s =
     (case fgets 4096 s of
        None \<Rightarrow> []
      | Some (line, rest) \<Rightarrow> cstr line @ copy_lines rest)"
  by pat_completeness auto
termination
proof (relation "measure length")
  show "wf (measure length)" by simp
next
  fix s :: string and x line rest
  assume a: "fgets 4096 s = Some x" "(line, rest) = x"
  let ?pre = "takeWhile (\<lambda>c. c \<noteq> NL) (take (4096 - 1) s)"
  have ne: "s \<noteq> []" using a by (auto simp: fgets_def split: if_splits)
  have "line = (if length ?pre < 4096 - 1 \<and> length ?pre < length s
                then take (length ?pre + 1) s else ?pre)"
    and r: "rest = drop (length line) s"
    using a ne by (auto simp: fgets_def Let_def)
  then have "0 < length line" using ne by (auto split: if_splits)
  then have "length rest < length s" using r ne by simp
  then show "(rest, s) \<in> measure length" by simp
qed

text \<open>
  \<open>copy_log_file(source, destination, append)\<close>. \<open>ftell\<close> after the loop is the end of
  the source, or the position of the \<open>fseek\<close> when that lay behind the end.
\<close>

definition copy_log_file :: "string \<Rightarrow> string \<Rightarrow> bool \<Rightarrow> recovery_state \<Rightarrow> recovery_state" where
  "copy_log_file source destination appnd s =
     (let (logf, s1) = fopen_path destination (if appnd then CHR ''a'' else CHR ''w'') s in
      if \<not> logf then s1
      else
        (case lookup s1 source of
           None \<Rightarrow> s1
         | Some tmplog \<Rightarrow>
             let start = (if appnd then tmplog_offset s1 else 0);
                 s2 = fwrite (copy_lines (drop start (f_data tmplog))) destination s1
             in if appnd then s2\<lparr>tmplog_offset := max start (length (f_data tmplog))\<rparr> else s2))"

text \<open>\<open>memset(&boot, 0, sizeof(boot))\<close> on a structure of the shape of \<open>b\<close>.\<close>

definition memset_zero :: "bootloader_message \<Rightarrow> bootloader_message" where
  "memset_zero b =
     \<lparr>command = replicate (length (command b)) NUL,
      status = replicate (length (status b)) NUL,
      recovery = replicate (length (recovery b)) NUL\<rparr>"

text \<open>
  \<open>finish_recovery(send_intent)\<close>, in the order of the source. After a NULL from
  \<open>fopen_path\<close> the locale step and the flag step go on to \<open>fwrite\<close> and \<open>fclose\<close> on
  the NULL stream. \<open>strflag\<close> has 160 bytes, all of which are written.
  \<open>TARGET_BOARD_PLATFORM == rockchip\<close> compares two names that are not macros, so the
  branch with \<open>bClearbootmessage\<close> is the one compiled. \<open>set_bootloader_message\<close>
  stores the structure.
\<close>

definition finish_intent :: "string option \<Rightarrow> recovery_state \<Rightarrow> recovery_state" where
  "finish_intent send_intent s =
     (case send_intent of
        None \<Rightarrow> s
      | Some i \<Rightarrow>
          (let (fp, s1) = fopen_path INTENT_FILE (CHR ''w'') s in
           if \<not> fp then s1 else fwrite i INTENT_FILE s1))"

definition finish_locale :: "recovery_state \<Rightarrow> fault + recovery_state" where
  "finish_locale s =
     (case locale' s of
        None \<Rightarrow> Inr s
      | Some l \<Rightarrow>
          (let (fp, s1) = fopen_path LOCALE_FILE (CHR ''w'') s in
           if \<not> fp then Inl NullDereference else Inr (fwrite l LOCALE_FILE s1)))"

text \<open>The modes 0600, 0640 and 0644 are written with their octal digits.\<close>

definition finish_logs :: "recovery_state \<Rightarrow> recovery_state" where
  "finish_logs s =
     (let s1 = copy_log_file TEMPORARY_LOG_FILE LOG_FILE True s;
          s2 = copy_log_file TEMPORARY_LOG_FILE LAST_LOG_FILE False s1;
          s3 = copy_log_file TEMPORARY_INSTALL_FILE LAST_INSTALL_FILE False s2;
          s4 = chmod LOG_FILE (6 * 64) s3;
          s5 = chown LOG_FILE 1000 1000 s4;
          s6 = chmod LAST_LOG_FILE (6 * 64 + 4 * 8) s5
      in chmod LAST_INSTALL_FILE (6 * 64 + 4 * 8 + 4) s6)"

definition finish_bcb :: "recovery_state \<Rightarrow> recovery_state" where
  "finish_bcb s = (if \<not> bClearbootmessage s then s\<lparr>bcb := memset_zero (bcb s)\<rparr> else s)"

definition finish_flag :: "recovery_state \<Rightarrow> fault + recovery_state" where
  "finish_flag s =
     (if bAutoUpdateComplete s then
        (let (fp, s1) = fopen_path FLAG_FILE (CHR ''w'') s in
         if 160 \<le> length (''success$path='' @ updatepath s) then Inl OutOfBounds
         else if \<not> fp then Inl NullDereference
         else
           (let strflag = (''success$path='' @ updatepath s) @
                          replicate (160 - length (''success$path='' @ updatepath s)) NUL
            in Inr ((fwrite strflag FLAG_FILE s1)\<lparr>bAutoUpdateComplete := False\<rparr>)))
      else Inr s)"

definition finish_unlink :: "recovery_state \<Rightarrow> recovery_state" where
  "finish_unlink s =
     (let (r, s1) = ensure_path_mounted COMMAND_FILE s;
          s2 = (if r \<noteq> 0 then s1 else unlink COMMAND_FILE s1)
      in snd (ensure_path_unmounted CACHE_ROOT s2))"

definition finish_recovery :: "string option \<Rightarrow> recovery_state \<Rightarrow> fault + recovery_state" where
  "finish_recovery send_intent s =
     (case finish_locale (finish_intent send_intent s) of
        Inl f \<Rightarrow> Inl f
      | Inr s1 \<Rightarrow>
          (case finish_flag (finish_bcb (finish_logs s1)) of
             Inl f \<Rightarrow> Inl f
           | Inr s2 \<Rightarrow> Inr (finish_unlink s2)))"

text \<open>
  \<open>erase_volume(volume)\<close>. \<open>format_volume\<close> belongs to roots.cpp and is a parameter; it
  acts on the file store and the cache volume, not on the globals of recovery.cpp. The
  calls that draw on the screen are left out.
\<close>

definition erase_volume ::
  "(string \<Rightarrow> (string \<Rightarrow> fs_file option) \<times> cache_state \<Rightarrow> int \<times> (string \<Rightarrow> fs_file option) \<times> cache_state)
     \<Rightarrow> string \<Rightarrow> recovery_state \<Rightarrow> int \<times> recovery_state"
where
  "erase_volume format_volume volume s =
     (let s1 = snd (ensure_path_unmounted volume s);
          s2 = (if volume = ''/cache'' then s1\<lparr>tmplog_offset := 0\<rparr> else s1);
          (r, fs, c) = format_volume volume (files s2, cache s2)
      in (r, s2\<lparr>files := fs, cache := c\<rparr>))"

section \<open>The FAT32 volume label\<close>

text \<open>
  The raw device that \<open>set_fat32_volumename\<close> opens: its bytes, the file position, and
  the record of what was done to it. Sizes and sector numbers are \<open>unsigned int\<close>, that
  is, words of 32 bits; \<open>char\<close> is unsigned and \<open>off_t\<close> has 32 bits, as on the ARM
  boards this file is built for.
\<close>

datatype dev_event = Open string | Read nat nat | Write nat "char list" | Close

record raw_dev =
  dev_img :: "char list"
  dev_pos :: nat
  dev_trace :: "dev_event list"

text \<open>\<open>read(fd, buf, 512)\<close>: the bytes delivered, fewer than 512 at the end of the device.\<close>

definition read512 :: "raw_dev \<Rightarrow> char list \<times> raw_dev" where
  "read512 d =
     (let bs = take 512 (drop (dev_pos d) (dev_img d))
      in (bs, d\<lparr>dev_pos := dev_pos d + length bs,
                dev_trace := dev_trace d @ [Read (dev_pos d) 512]\<rparr>))"

text \<open>
  \<open>lseek(fd, off, SEEK_SET)\<close> with an \<open>unsigned int\<close> offset: as an \<open>off_t\<close> of 32 bits it
  is negative from \<open>2^31\<close> on, and then the position stays where it is.
\<close>

definition lseek_set :: "32 word \<Rightarrow> raw_dev \<Rightarrow> raw_dev" where
  "lseek_set off d = (if sint off < 0 then d else d\<lparr>dev_pos := nat (sint off)\<rparr>)"

text \<open>\<open>lseek(fd, -512, SEEK_CUR)\<close> followed by \<open>write(fd, buf, 512)\<close>.\<close>

definition write_back :: "char list \<Rightarrow> raw_dev \<Rightarrow> raw_dev" where
  "write_back buf d =
     (let p = dev_pos d - 512 in
      if dev_pos d < 512 then d\<lparr>dev_trace := dev_trace d @ [Write (dev_pos d) buf]\<rparr>
      else d\<lparr>dev_img := take p (dev_img d) @ buf @ drop (p + length buf) (dev_img d),
              dev_pos := p + length buf,
              dev_trace := dev_trace d @ [Write p buf]\<rparr>)"

definition get_u8 :: "char list \<Rightarrow> nat \<Rightarrow> 32 word" where
  "get_u8 buf i = of_nat (of_char (buf ! i))"

definition get_u16 :: "char list \<Rightarrow> nat \<Rightarrow> 32 word" where
  "get_u16 buf i = of_nat (of_char (buf ! i) + 256 * of_char (buf ! (i + 1)))"

definition get_u32 :: "char list \<Rightarrow> nat \<Rightarrow> 32 word" where
  "get_u32 buf i =
     of_nat (of_char (buf ! i) + 256 * of_char (buf ! (i + 1)) +
             65536 * of_char (buf ! (i + 2)) + 16777216 * of_char (buf ! (i + 3)))"

definition toupper :: "char \<Rightarrow> char" where
  "toupper c =
     (if 97 \<le> (of_char c :: nat) \<and> (of_char c :: nat) \<le> 122
      then char_of ((of_char c :: nat) - 32) else c)"

text \<open>\<open>strstr(haystack, needle)\<close>: the rest of the haystack from the first match on.\<close>

fun strstr :: "string \<Rightarrow> string \<Rightarrow> string option" where
  "strstr [] needle = (if needle = [] then Some [] else None)"
| "strstr (c # cs) needle =
     (if take (length needle) (c # cs) = needle then Some (c # cs) else strstr cs needle)"

record Volume =
  mount_point :: string
  device :: string

text \<open>
  What \<open>set_fat32_volumename\<close> gets from outside: the result of
  \<open>ensure_path_unmounted\<close>, the volume table, the partition table with the index of a
  partition, whether \<open>open\<close> succeeds, and the bytes of the device.
\<close>

record fat_env =
  unmount_result :: int
  volume_for_path :: "string \<Rightarrow> Volume option"
  find_partition :: "string \<Rightarrow> MtdPartition option"
  mtd_get_partition_index :: "MtdPartition \<Rightarrow> int"
  open_ok :: "string \<Rightarrow> bool"
  device_bytes :: "char list"

text \<open>
  The directory entry that is written: the 11 bytes of the label, the attribute byte 8,
  and zeros. The loop over the 16 entries of a sector stops at the first entry whose
  first byte is 0 or whose attribute byte has bit 3 set.
\<close>

definition label_entry :: "char list \<Rightarrow> char list" where
  "label_entry volumeName = volumeName @ [char_of (8 :: nat)] @ replicate 20 NUL"

definition is_volume_slot :: "char list \<Rightarrow> nat \<Rightarrow> bool" where
  "is_volume_slot buf j =
     (buf ! (j * 32) = NUL \<or> (get_u8 buf (j * 32 + 11) AND 8) \<noteq> 0)"

definition patch_sector :: "char list \<Rightarrow> char list \<Rightarrow> char list option" where
  "patch_sector volumeName buf =
     (case List.find (is_volume_slot buf) [0..<16] of
        None \<Rightarrow> None
      | Some j \<Rightarrow> Some (take (j * 32) buf @ label_entry volumeName @ drop (j * 32 + 32) buf))"

datatype scan = Found raw_dev | ReadError raw_dev | NotFound raw_dev

text \<open>The loop \<open>for (i = 0; i < nSecPerCluster; i++)\<close> over the sectors of a cluster.\<close>

fun scan_sectors :: "nat \<Rightarrow> char list \<Rightarrow> raw_dev \<Rightarrow> scan" where
  "scan_sectors 0 volumeName d = NotFound d"
| "scan_sectors (Suc n) volumeName d =
     (let (buf, d1) = read512 d in
      if length buf \<noteq> 512 then ReadError d1
      else
        (case patch_sector volumeName buf of
           Some buf' \<Rightarrow> Found (write_back buf' d1)
         | None \<Rightarrow> scan_sectors n volumeName d1))"

text \<open>
  The loop \<open>while (clusterNo != 0)\<close> along the cluster chain. A chain with a cycle never
  ends, so the loop runs on fuel: \<open>None\<close> when the fuel is used up. The result is
  \<open>iRet\<close> and the device.
\<close>

fun walk_chain ::
  "nat \<Rightarrow> char list \<Rightarrow> 32 word \<Rightarrow> 32 word \<Rightarrow> 32 word \<Rightarrow> 32 word \<Rightarrow> raw_dev \<Rightarrow> (int \<times> raw_dev) option"
where
  "walk_chain fuel volumeName nSecPerCluster nReservedSec clusterStartLba clusterNo d =
     (if clusterNo = 0 then Some (- 11, d)
      else
        (case fuel of
           0 \<Rightarrow> None
         | Suc fuel' \<Rightarrow>
             (let currentSec = (clusterNo - 2) * nSecPerCluster + clusterStartLba;
                  d1 = lseek_set (currentSec * 512) d
              in case scan_sectors (unat nSecPerCluster) volumeName d1 of
                   Found d2 \<Rightarrow> Some (0, d2)
                 | ReadError d2 \<Rightarrow> Some (- 9, d2)
                 | NotFound d2 \<Rightarrow>
                     (let currentSec' = (clusterNo * 4) div 512 + nReservedSec;
                          d3 = lseek_set (currentSec' * 512) d2;
                          (buf, d4) = read512 d3
                      in if length buf \<noteq> 512 then Some (- 10, d4)
                         else
                           (let next = get_u32 buf (unat ((clusterNo * 4) mod 512));
                                clusterNo' = (if next = 0xFFFFFFF then 0 else next)
                            in walk_chain fuel' volumeName nSecPerCluster nReservedSec
                                 clusterStartLba clusterNo' d4)))))"

text \<open>
  \<open>set_fat32_volumename(volume, name)\<close>. The result is \<open>iRet\<close> and the device, with its
  record of events, after \<open>close\<close>; before \<open>open\<close> there is no device and the record is
  empty. \<open>mtdName\<close> has 32 bytes, and \<open>strcpy\<close> into it does not check the length.
\<close>

definition exit_closed :: "int \<Rightarrow> raw_dev \<Rightarrow> int \<times> raw_dev" where
  "exit_closed iRet d = (iRet, d\<lparr>dev_trace := dev_trace d @ [Close]\<rparr>)"

definition set_fat32_volumename ::
  "nat \<Rightarrow> fat_env \<Rightarrow> string \<Rightarrow> string \<Rightarrow> (fault + int \<times> raw_dev) option"
where
  "set_fat32_volumename fuel env volume name' =
     (let d0 = \<lparr>dev_img = device_bytes env, dev_pos = 0, dev_trace = []\<rparr> in
      if unmount_result env \<noteq> 0 then Some (Inr (- 1, d0))
      else
        case volume_for_path env volume of
          None \<Rightarrow> Some (Inr (- 2, d0))
        | Some pVol \<Rightarrow>
            (let mtdName = (case strstr (device pVol) ''/dev/block/mtd/by-name/'' of
                              Some p \<Rightarrow> drop 23 p
                            | None \<Rightarrow> device pVol)
             in if 32 \<le> length mtdName then Some (Inl OutOfBounds)
                else
                  case find_partition env mtdName of
                    None \<Rightarrow> Some (Inr (- 3, d0))
                  | Some part \<Rightarrow>
                      (let path = ''/dev/mtd/mtd'' @ printf_d (mtd_get_partition_index env part)
                       in if \<not> open_ok env path then Some (Inr (- 4, d0))
                          else
                            (let d1 = d0\<lparr>dev_trace := [Open path]\<rparr>;
                                 (buf, d2) = read512 d1
                             in if length buf \<noteq> 512 then Some (Inr (exit_closed (- 5) d2))
                                else if take 5 (drop 82 buf) \<noteq> ''FAT32''
                                then Some (Inr (exit_closed (- 6) d2))
                                else if get_u8 buf 510 \<noteq> 85 \<or> get_u8 buf 511 \<noteq> 170
                                then Some (Inr (exit_closed (- 7) d2))
                                else
                                  (let nSecPerCluster = get_u8 buf 13;
                                       nReservedSec = get_u16 buf 14;
                                       nFatNum = get_u8 buf 16;
                                       nSecPerFat = get_u32 buf 36;
                                       nRootCluster = get_u32 buf 44;
                                       clusterStartLba = nReservedSec + nFatNum * nSecPerFat;
                                       j = length name'
                                   in if j \<le> 0 then Some (Inr (exit_closed (- 8) d2))
                                      else
                                        (let volumeName =
                                               map toupper (take 11 name') @
                                               replicate (11 - length (take 11 name')) (CHR '' '')
                                         in map_option (\<lambda>(iRet, d). Inr (exit_closed iRet d))
                                              (walk_chain fuel volumeName nSecPerCluster
                                                 nReservedSec clusterStartLba nRootCluster d2)))))))"

section \<open>Auxiliary notions used to state the properties\<close>

text \<open>
  The tokens of a string: the maximal non-empty runs of bytes that are not delimiters,
  in order. This is what successive calls of \<open>strtok\<close> return.
\<close>

function tokens :: "string \<Rightarrow> string \<Rightarrow> string list" where
  "tokens delim s =
     (let s' = dropWhile (\<lambda>c. c \<in> set delim) s in
      if s' = [] then []
      else takeWhile (\<lambda>c. c \<notin> set delim) s' #
           tokens delim (drop 1 (dropWhile (\<lambda>c. c \<notin> set delim) s')))"
  by pat_completeness auto
termination
proof (relation "measure (\<lambda>(delim, s). length s)")
  show "wf (measure (\<lambda>(delim, s). length s))" by simp
next
  fix delim s :: string and s' :: string
  assume s': "s' = dropWhile (\<lambda>c. c \<in> set delim) s" and ne: "s' \<noteq> []"
  have "length (dropWhile (\<lambda>c. c \<notin> set delim) s') \<le> length s'"
    by (rule length_dropWhile_le)
  moreover have "length s' \<le> length s" unfolding s' by (rule length_dropWhile_le)
  moreover have "0 < length s'" using ne by simp
  ultimately have "length (dropWhile (\<lambda>c. c \<notin> set delim) s') - 1 < length s"
    by linarith
  then show "((delim, drop 1 (dropWhile (\<lambda>c. c \<notin> set delim) s')), (delim, s))
      \<in> measure (\<lambda>(delim, s). length s)"
    by simp
qed

text \<open>The encoding of an argument list: every argument followed by a newline.\<close>

definition arg_lines :: "string list \<Rightarrow> string" where
  "arg_lines args = concat (map (\<lambda>a. a @ [NL]) args)"

text \<open>
  Two boots in a row: \<open>get_args\<close> runs, the control block it has written is what the
  next \<open>get_args\<close> reads; the result is the argument vector of the second run.
\<close>

definition two_boots ::
  "bootloader_message \<Rightarrow> string option \<Rightarrow> cptr list \<Rightarrow> string option \<Rightarrow> cptr list \<Rightarrow> fault + cptr list"
where
  "two_boots boot cmdfile argv cmdfile' argv' =
     (case get_args boot cmdfile argv of
        Inl f \<Rightarrow> Inl f
      | Inr (_, b) \<Rightarrow>
          (case get_args b cmdfile' argv' of
             Inl f \<Rightarrow> Inl f
           | Inr (a, _) \<Rightarrow> Inr a))"

text \<open>A control block of the given field sizes with every byte zero.\<close>

definition zero_bcb :: "nat \<Rightarrow> nat \<Rightarrow> nat \<Rightarrow> bootloader_message" where
  "zero_bcb c s r = \<lparr>command = replicate c NUL, status = replicate s NUL, recovery = replicate r NUL\<rparr>"

text \<open>
  The lines that the loop over the command file can read: the results of at most \<open>n\<close>
  successive calls of \<open>fgets\<close> with the buffer of \<open>MAX_ARG_LENGTH\<close> bytes.
\<close>

fun file_lines :: "nat \<Rightarrow> string \<Rightarrow> string list" where
  "file_lines 0 s = []"
| "file_lines (Suc n) s =
     (case fgets MAX_ARG_LENGTH s of
        None \<Rightarrow> []
      | Some (line, rest) \<Rightarrow> line # file_lines n rest)"

text \<open>A line with no byte other than CR and LF before its end (or before a NUL in it).\<close>

definition blank :: "string \<Rightarrow> bool" where
  "blank line = list_all (\<lambda>c. c = CR \<or> c = NL) (cstr line)"

text \<open>
  A file after \<open>d\<close> has been written to it through a stream opened with "w", and after
  \<open>d\<close> has been appended through a stream opened with "a"; \<open>fo\<close> is what was there,
  \<open>m\<close> and \<open>ow\<close> are the mode and the owner of a new file.
\<close>

definition written :: "string \<Rightarrow> fs_file option \<Rightarrow> nat \<Rightarrow> nat \<times> nat \<Rightarrow> fs_file" where
  "written d fo m ow =
     (case fo of
        None \<Rightarrow> \<lparr>f_data = d, f_mode = m, f_owner = ow\<rparr>
      | Some f \<Rightarrow> f\<lparr>f_data := d\<rparr>)"

definition appended :: "string \<Rightarrow> fs_file option \<Rightarrow> nat \<Rightarrow> nat \<times> nat \<Rightarrow> fs_file" where
  "appended d fo m ow =
     (case fo of
        None \<Rightarrow> \<lparr>f_data = d, f_mode = m, f_owner = ow\<rparr>
      | Some f \<Rightarrow> f\<lparr>f_data := f_data f @ d\<rparr>)"

text \<open>What the log copies hold of a source file: nothing when it is not there.\<close>

definition copied :: "fs_file option \<Rightarrow> string" where
  "copied fo = (case fo of None \<Rightarrow> [] | Some t \<Rightarrow> copy_lines (f_data t))"

text \<open>
  The state that \<open>finish_recovery\<close> leaves behind, but for the cache volume being
  mounted or not: nothing is left for a further call to change.
\<close>

definition finished :: "string option \<Rightarrow> recovery_state \<Rightarrow> bool" where
  "finished send_intent t \<longleftrightarrow>
     \<not> bAutoUpdateComplete t \<and>
     (\<not> bClearbootmessage t \<longrightarrow> bcb t = memset_zero (bcb t)) \<and>
     (cache t = Unmountable \<longrightarrow> locale' t = None) \<and>
     (cache t \<noteq> Unmountable \<longrightarrow>
        (\<forall>i. send_intent = Some i \<longrightarrow> (\<exists>f. files t INTENT_FILE = Some f \<and> f_data f = i)) \<and>
        (\<forall>l. locale' t = Some l \<longrightarrow> (\<exists>f. files t LOCALE_FILE = Some f \<and> f_data f = l)) \<and>
        (\<exists>f. files t LOG_FILE = Some f \<and> f_mode f = 6 * 64 \<and> f_owner f = (1000, 1000)) \<and>
        (\<forall>x. files t TEMPORARY_LOG_FILE = Some x \<longrightarrow> length (f_data x) \<le> tmplog_offset t) \<and>
        (\<exists>f. files t LAST_LOG_FILE = Some f \<and> f_mode f = 6 * 64 + 4 * 8 \<and>
             f_data f = copied (files t TEMPORARY_LOG_FILE)) \<and>
        (\<exists>f. files t LAST_INSTALL_FILE = Some f \<and> f_mode f = 6 * 64 + 4 * 8 + 4 \<and>
             f_data f = copied (files t TEMPORARY_INSTALL_FILE)) \<and>
        files t COMMAND_FILE = None)"

text \<open>Two calls of \<open>finish_recovery\<close> in a row.\<close>

definition finish_twice :: "string option \<Rightarrow> recovery_state \<Rightarrow> fault + recovery_state" where
  "finish_twice send_intent s =
     (case finish_recovery send_intent s of
        Inl f \<Rightarrow> Inl f
      | Inr s1 \<Rightarrow> finish_recovery send_intent s1)"

text \<open>
  A state in the middle of a session, for the examples: the temporary log holds two
  lines, the first of which has been copied to the log on the cache volume, and the
  command file and the control block ask for a wipe of the cache.
\<close>

definition example_state :: recovery_state where
  "example_state =
     \<lparr>files =
        [TEMPORARY_LOG_FILE \<mapsto>
           \<lparr>f_data = ''Starting recovery'' @ [NL] @ ''Formatting /cache...'' @ [NL],
            f_mode = 6 * 64 + 4 * 8 + 4, f_owner = (0, 0)\<rparr>,
         LOG_FILE \<mapsto>
           \<lparr>f_data = ''Starting recovery'' @ [NL], f_mode = 6 * 64, f_owner = (1000, 1000)\<rparr>,
         COMMAND_FILE \<mapsto>
           \<lparr>f_data = ''--wipe_cache'' @ [NL], f_mode = 6 * 64 + 4 * 8 + 4, f_owner = (1000, 1000)\<rparr>],
      cache = Unmounted, new_mode = 6 * 64 + 6 * 8 + 6, new_owner = (0, 0),
      bcb = (zero_bcb 32 32 1024)
              \<lparr>command := ''boot-recovery'' @ replicate 19 NUL,
               recovery := ''recovery'' @ [NL] @ ''--wipe_cache'' @ [NL] @ replicate 1002 NUL\<rparr>,
      tmplog_offset = 18, locale' = Some ''en_US'', bClearbootmessage = False,
      bAutoUpdateComplete = False, updatepath = []\<rparr>"

text \<open>Two ways \<open>format_volume\<close> can go: the files of the cache volume are gone, or it fails.\<close>

definition format_wipes ::
  "string \<Rightarrow> (string \<Rightarrow> fs_file option) \<times> cache_state \<Rightarrow> int \<times> (string \<Rightarrow> fs_file option) \<times> cache_state"
where
  "format_wipes volume fc =
     (0, (\<lambda>p. if volume = ''/cache'' \<and> on_cache p then None else fst fc p), snd fc)"

definition format_fails ::
  "string \<Rightarrow> (string \<Rightarrow> fs_file option) \<times> cache_state \<Rightarrow> int \<times> (string \<Rightarrow> fs_file option) \<times> cache_state"
where
  "format_fails volume fc = (- 1, fc)"

text \<open>Whether an event on the raw device is a write.\<close>

definition is_write :: "dev_event \<Rightarrow> bool" where
  "is_write e = (case e of Write p bs \<Rightarrow> True | _ \<Rightarrow> False)"

text \<open>
  A FAT32 boot sector for the examples (one sector per cluster, one reserved sector, one
  FAT of one sector, root directory in cluster 2), the same sector without the "FAT32"
  mark, and the outside world of \<open>set_fat32_volumename\<close> around a device that begins
  with a given sector.
\<close>

definition example_boot_sector :: "char list" where
  "example_boot_sector =
     replicate 13 NUL @ [char_of (1 :: nat)] @ [char_of (1 :: nat), NUL] @ [char_of (1 :: nat)] @
     replicate 19 NUL @ [char_of (1 :: nat), NUL, NUL, NUL] @ replicate 4 NUL @
     [char_of (2 :: nat), NUL, NUL, NUL] @ replicate 34 NUL @ ''FAT32   '' @ replicate 420 NUL @
     [char_of (85 :: nat), char_of (170 :: nat)]"

definition example_bad_sector :: "char list" where
  "example_bad_sector = replicate 510 NUL @ [char_of (85 :: nat), char_of (170 :: nat)]"

definition example_fat_env :: "char list \<Rightarrow> fat_env" where
  "example_fat_env sector =
     \<lparr>unmount_result = 0,
      volume_for_path =
        (\<lambda>v. Some \<lparr>mount_point = ''/mnt/sdcard'', device = ''/dev/block/mtd/by-name/user''\<rparr>),
      find_partition =
        (\<lambda>n. if n = ''user''
             then Some \<lparr>device_index = 7, size_mtd = 0x40000000, erase_size = 0x4000, name = ''user''\<rparr>
             else None),
      mtd_get_partition_index = device_index,
      open_ok = (\<lambda>p. True),
      device_bytes = sector @ replicate 1024 NUL\<rparr>"



text \<open>
  The way \<open>read_ext\<close> is left: \<open>Some\<close> of \<open>info.len\<close> when it reaches its last statement,
  \<open>return info.len\<close>, and \<open>None\<close> when it leaves at one of the eight \<open>return -1\<close>.
\<close>

definition read_ext_length :: "ext4_env \<Rightarrow> 64 word option" where
  "read_ext_length env =
     (if lseek64 1024 < 0 then None
      else
        case dev_read env 1024 (sb_size env) of
          None \<Rightarrow> None
        | Some bytes \<Rightarrow>
            if length (take (sb_size env) bytes) \<noteq> sb_size env then None
            else
              let sb = sb_of_bytes env (take (sb_size env) bytes) in
              if test_sb sb \<noteq> 0 then None
              else
                let (info, aux_info) = ext4_parse_sb env sb in
                if lseek64 (sint (len info)) < 0 then None
                else
                  let off = block_size info * (first_data_block aux_info + 1) in
                  if lseek64 (uint off) < 0 then None
                  else
                    let n = block_size info * bg_desc_blocks aux_info
                    in (case dev_read env (unat off) (unat n) of
                          None \<Rightarrow> None
                        | Some d \<Rightarrow>
                            if int (length (take (unat n) d)) \<noteq> sint n then None
                            else Some (len info)))"

definition bad_magic_device :: ext4_env where
  "bad_magic_device =
     \<lparr>dev_read = (\<lambda>off n. Some (replicate n NUL)), sb_size = 1024,
      sb_of_bytes = (\<lambda>bytes. \<lparr>s_magic = 0, s_state = 0\<rparr>),
      ext4_parse_sb = (\<lambda>sb. (\<lparr>len = 0, block_size = 1024\<rparr>,
                              \<lparr>first_data_block = 1, bg_desc_blocks = 1\<rparr>))\<rparr>"

definition one_gigabyte_device :: ext4_env where
  "one_gigabyte_device =
     \<lparr>dev_read = (\<lambda>off n. Some (replicate n NUL)), sb_size = 1024,
      sb_of_bytes = (\<lambda>bytes. \<lparr>s_magic = 0xEF53, s_state = 1\<rparr>),
      ext4_parse_sb = (\<lambda>sb. (\<lparr>len = 0x40000000, block_size = 4096\<rparr>,
                              \<lparr>first_data_block = 0, bg_desc_blocks = 1\<rparr>))\<rparr>"

declare bcb_loop.simps [simp del]
declare copy_lines.simps [simp del]
declare command_file_loop.simps [simp del]
declare tokens.simps [simp del]

section \<open>Properties of the libc model\<close>


lemma cstr_append_NUL: "NUL \<notin> set s \<Longrightarrow> cstr (s @ NUL # r) = s"
  by (induction s) (auto simp: cstr_def)

lemma cstr_append_NUL_gen: "cstr (s @ NUL # r) = cstr s"
  by (induction s) (simp_all add: cstr_def)

lemma cstr_eq_take: "cstr b = take (length (cstr b)) b"
  unfolding cstr_def by (rule takeWhile_eq_take)

lemma cstr_length_le: "length (cstr b) \<le> length b"
  unfolding cstr_def by (rule length_takeWhile_le)

lemma cstr_NUL_free: "NUL \<notin> set (cstr b)"
  unfolding cstr_def by (auto dest: set_takeWhileD)

lemma cstr_idem: "NUL \<notin> set s \<Longrightarrow> cstr s = s"
  by (induction s) (auto simp: cstr_def)

lemma take_take_append: "take n (take n xs @ ys) = take n (xs @ ys)"
  by (cases "n \<le> length xs") (auto simp: min_def)

lemma length_strlcpy: "siz \<le> length dst \<Longrightarrow> length (strlcpy dst src siz) = length dst"
  by (auto simp: strlcpy_def Let_def)

lemma cstr_strlcpy_gen: "0 < siz \<Longrightarrow> cstr (strlcpy dst src siz) = cstr (take (siz - 1) src)"
  by (simp add: strlcpy_def Let_def cstr_append_NUL_gen)

lemma cstr_strlcpy: "0 < siz \<Longrightarrow> NUL \<notin> set src \<Longrightarrow> cstr (strlcpy dst src siz) = take (siz - 1) src"
proof -
  assume a: "0 < siz" "NUL \<notin> set src"
  then have "NUL \<notin> set (take (siz - 1) src)" by (auto dest: in_set_takeD)
  then show ?thesis using a(1) by (simp add: cstr_strlcpy_gen cstr_idem)
qed

lemma length_strlcat: "siz \<le> length dst \<Longrightarrow> length (strlcat dst src siz) = length dst"
  using cstr_length_le[of "take siz dst"]
  by (auto simp: strlcat_def Let_def)

lemma cstr_strlcat_gen:
  "cstr (strlcat dst src (length dst)) =
     (if length (cstr dst) = length dst then cstr dst
      else cstr (cstr dst @ take (length dst - length (cstr dst) - 1) src))"
proof (cases "length (cstr dst) = length dst")
  case True
  then show ?thesis by (simp add: strlcat_def)
next
  case False
  have "take (length (cstr dst)) dst = cstr dst" using cstr_eq_take[of dst] by simp
  then have "strlcat dst src (length dst) =
      (cstr dst @ take (length dst - length (cstr dst) - 1) src) @ NUL #
        drop (length (cstr dst) + length (take (length dst - length (cstr dst) - 1) src) + 1) dst"
    using False by (simp add: strlcat_def Let_def)
  then show ?thesis using False by (simp only: cstr_append_NUL_gen if_False)
qed

lemma cstr_strlcat:
  assumes "length (cstr dst) < length dst" "NUL \<notin> set src"
  shows "cstr (strlcat dst src (length dst)) = take (length dst - 1) (cstr dst @ src)"
proof -
  have "NUL \<notin> set (cstr dst @ take (length dst - length (cstr dst) - 1) src)"
    using assms(2) cstr_NUL_free[of dst] by (auto dest: in_set_takeD)
  then have "cstr (strlcat dst src (length dst)) = cstr dst @ take (length dst - length (cstr dst) - 1) src"
    using assms(1) by (simp add: cstr_strlcat_gen cstr_idem)
  also have "\<dots> = take (length dst - 1) (cstr dst @ src)"
    using assms(1) by simp
  finally show ?thesis .
qed

lemma write_args_length:
  "write_args b as = Inr r \<Longrightarrow> length r = length b"
  by (induction b as rule: write_args.induct) (auto simp: length_strlcat)

lemma write_args_total:
  "None \<notin> set as \<Longrightarrow> \<exists>r. write_args b as = Inr r"
  by (induction b as rule: write_args.induct) auto

lemma write_args_cong:
  "length b1 = length b2 \<Longrightarrow> cstr b1 = cstr b2 \<Longrightarrow>
   write_args b1 as = Inr r1 \<Longrightarrow> write_args b2 as = Inr r2 \<Longrightarrow> cstr r1 = cstr r2"
proof (induction b1 as arbitrary: b2 rule: write_args.induct)
  case (1 buf)
  then show ?case by simp
next
  case (2 buf as)
  then show ?case by simp
next
  case (3 buf a as)
  let ?n = "length buf"
  let ?c1 = "strlcat (strlcat buf a ?n) [NL] ?n"
  let ?c2 = "strlcat (strlcat b2 a ?n) [NL] ?n"
  have l: "length (strlcat buf a ?n) = ?n" "length (strlcat b2 a ?n) = ?n"
    using 3(2) by (simp_all add: length_strlcat)
  have "cstr (strlcat buf a ?n) = cstr (strlcat b2 a ?n)"
    using 3(2,3) cstr_strlcat_gen[of buf a] cstr_strlcat_gen[of b2 a] by simp
  then have "cstr ?c1 = cstr ?c2"
    using l cstr_strlcat_gen[of "strlcat buf a ?n" "[NL]"] cstr_strlcat_gen[of "strlcat b2 a ?n" "[NL]"]
    by simp
  moreover have "length ?c1 = length ?c2" using l by (simp add: length_strlcat)
  ultimately show ?case using 3(1)[of ?c2 ] 3(2,4,5) by simp
qed

lemma write_args_cstr:
  "length (cstr b) < length b \<Longrightarrow> \<forall>a\<in>set as. NUL \<notin> set a \<Longrightarrow>
   \<exists>r. write_args b (map Some as) = Inr r \<and> length r = length b \<and>
       cstr r = take (length b - 1) (cstr b @ concat (map (\<lambda>a. a @ [NL]) as))"
proof (induction as arbitrary: b)
  case Nil
  then show ?case by simp
next
  case (Cons a as)
  let ?n = "length b"
  let ?b1 = "strlcat b a ?n"
  let ?b2 = "strlcat ?b1 [NL] ?n"
  have l1: "length ?b1 = ?n" by (simp add: length_strlcat)
  have l2: "length ?b2 = ?n" using l1 by (simp add: length_strlcat)
  have c1: "cstr ?b1 = take (?n - 1) (cstr b @ a)"
    using Cons.prems by (simp add: cstr_strlcat)
  then have "length (cstr ?b1) < length ?b1" using l1 Cons.prems(1) by simp
  then have "cstr ?b2 = take (?n - 1) (cstr ?b1 @ [NL])"
    using cstr_strlcat[of ?b1 "[NL]"] l1 by simp
  then have c2: "cstr ?b2 = take (?n - 1) (cstr b @ a @ [NL])"
    using c1 take_take_append[of "?n - 1" "cstr b @ a" "[NL]"] by simp
  then have "length (cstr ?b2) < length ?b2" using l2 Cons.prems(1) by simp
  then obtain r where r: "write_args ?b2 (map Some as) = Inr r" "length r = length ?b2"
      "cstr r = take (length ?b2 - 1) (cstr ?b2 @ concat (map (\<lambda>a. a @ [NL]) as))"
    using Cons.IH[of ?b2] Cons.prems(2) by auto
  have "cstr r = take (?n - 1) (cstr b @ concat (map (\<lambda>a. a @ [NL]) (a # as)))"
    using r(3) l2 c2 take_take_append[of "?n - 1" "cstr b @ a @ [NL]" "concat (map (\<lambda>a. a @ [NL]) as)"]
    by simp
  then show ?case using r(1,2) l2 by simp
qed


lemma takeWhile_dropWhile_nil: "takeWhile P (dropWhile P xs) = []"
  by (induction xs) auto

lemma takeWhile_drop_prefix:
  assumes "takeWhile P zs = xs @ ys"
  shows "takeWhile P (drop (length xs) zs) = ys"
proof -
  have "zs = (xs @ ys) @ dropWhile P zs"
    using assms takeWhile_dropWhile_id[of P zs] by simp
  then have "drop (length xs) zs = ys @ dropWhile P zs"
    by (metis append.assoc append_eq_conv_conj)
  moreover have "\<forall>y\<in>set ys. P y"
    using assms set_takeWhileD[of _ P zs] by auto
  ultimately show ?thesis
    by (simp add: takeWhile_dropWhile_nil)
qed

lemma cstr_drop_append:
  "cstr (drop p buf) = xs @ ys \<Longrightarrow> cstr (drop (p + length xs) buf) = ys"
  using takeWhile_drop_prefix[of "\<lambda>c. c \<noteq> NUL" "drop p buf" xs ys]
  by (simp add: cstr_def add.commute)

lemma cstr_drop_take:
  "n \<le> length (cstr (drop p buf)) \<Longrightarrow> cstr (drop (p + n) buf) = drop n (cstr (drop p buf))"
  using cstr_drop_append[of p buf "take n (cstr (drop p buf))" "drop n (cstr (drop p buf))"]
  by simp

lemma drop_rest:
  "drop 1 (dropWhile Q (drop k s)) = drop (k + length (takeWhile Q (drop k s)) + 1) s"
proof -
  have "dropWhile Q (drop k s) = drop (length (takeWhile Q (drop k s))) (drop k s)"
    by (rule dropWhile_eq_drop)
  then have "drop 1 (dropWhile Q (drop k s)) = drop 1 (drop (length (takeWhile Q (drop k s))) (drop k s))"
    by simp
  also have "\<dots> = drop (k + length (takeWhile Q (drop k s)) + 1) s"
    by (simp add: add.commute)
  finally show ?thesis .
qed

lemma strtok_None:
  "strtok buf p delim = None \<longleftrightarrow> dropWhile (\<lambda>c. c \<in> set delim) (cstr (drop p buf)) = []"
proof -
  let ?s = "cstr (drop p buf)"
  let ?s' = "dropWhile (\<lambda>c. c \<in> set delim) ?s"
  have d: "drop (length (takeWhile (\<lambda>c. c \<in> set delim) ?s)) ?s = ?s'"
    by (simp add: dropWhile_eq_drop)
  have "takeWhile (\<lambda>c. c \<notin> set delim) ?s' = [] \<longleftrightarrow> ?s' = []"
    using hd_dropWhile[of "\<lambda>c. c \<in> set delim" ?s]
    by (cases ?s') (auto simp: takeWhile_eq_Nil_iff)
  then show ?thesis
    by (simp add: strtok_def Let_def d)
qed

lemma strtok_Some:
  assumes "strtok buf p delim = Some (t, buf', p')"
  shows "t = takeWhile (\<lambda>c. c \<notin> set delim) (dropWhile (\<lambda>c. c \<in> set delim) (cstr (drop p buf)))"
    and "cstr (drop p' buf') =
         drop 1 (dropWhile (\<lambda>c. c \<notin> set delim) (dropWhile (\<lambda>c. c \<in> set delim) (cstr (drop p buf))))"
    and "length buf' = length buf"
proof -
  let ?s = "cstr (drop p buf)"
  let ?k = "length (takeWhile (\<lambda>c. c \<in> set delim) ?s)"
  let ?s' = "dropWhile (\<lambda>c. c \<in> set delim) ?s"
  let ?t = "takeWhile (\<lambda>c. c \<notin> set delim) ?s'"
  have d: "drop ?k ?s = ?s'" by (simp add: dropWhile_eq_drop)
  have d2: "dropWhile (\<lambda>c. c \<notin> set delim) ?s' = drop (length ?t) ?s'"
    by (simp add: dropWhile_eq_drop)
  have rest: "drop 1 (dropWhile (\<lambda>c. c \<notin> set delim) ?s') = drop (?k + length ?t + 1) ?s"
    using drop_rest[of "\<lambda>c. c \<notin> set delim" ?k ?s] by (simp only: d)
  show "t = ?t" using assms by (auto simp: strtok_def Let_def d split: if_splits)
  show "length buf' = length buf" using assms by (auto simp: strtok_def Let_def d split: if_splits)
  show "cstr (drop p' buf') = drop 1 (dropWhile (\<lambda>c. c \<notin> set delim) ?s')"
  proof (cases "?k + length ?t < length ?s")
    case True
    then have b: "buf' = buf[p + ?k + length ?t := NUL]" "p' = p + ?k + length ?t + 1"
      using assms by (auto simp: strtok_def Let_def d split: if_splits)
    have "cstr (drop p' buf') = cstr (drop (p + (?k + length ?t + 1)) buf)"
      unfolding b by (simp add: add.assoc)
    also have "\<dots> = drop (?k + length ?t + 1) ?s"
      using True by (intro cstr_drop_take) simp
    finally show ?thesis using rest by simp
  next
    case False
    then have b: "buf' = buf" "p' = p + ?k + length ?t"
      using assms by (auto simp: strtok_def Let_def d split: if_splits)
    have "length ?t \<le> length ?s'" by (rule length_takeWhile_le)
    moreover have "length ?s' = length ?s - ?k" using length_drop[of ?k ?s] by (simp only: d)
    moreover have "?k \<le> length ?s" by (rule length_takeWhile_le)
    ultimately have le: "?k + length ?t \<le> length ?s" by linarith
    have "cstr (drop p' buf') = drop (?k + length ?t) ?s"
      unfolding b using le cstr_drop_take[of "?k + length ?t" p buf] by (simp add: add.assoc)
    then show ?thesis using rest False le by simp
  qed
qed


lemma bcb_loop_tokens:
  "fst (bcb_loop argc buf p) = take (MAX_ARGS - argc) (tokens [NL] (cstr (drop p buf))) \<and>
   length (snd (bcb_loop argc buf p)) = length buf"
proof (induction argc buf p rule: bcb_loop.induct)
  case (1 argc buf p)
  show ?case
  proof (cases "argc < MAX_ARGS")
    case False
    then show ?thesis by (simp add: bcb_loop.simps)
  next
    case True
    show ?thesis
    proof (cases "strtok buf p [NL]")
      case None
      then have "tokens [NL] (cstr (drop p buf)) = []"
        using strtok_None[of buf p "[NL]"] by (simp add: tokens.simps)
      then show ?thesis using None True by (simp add: bcb_loop.simps)
    next
      case (Some x)
      obtain t buf' p' where x: "x = (t, buf', p')" by (cases x) auto
      have ne: "dropWhile (\<lambda>c. c \<in> set [NL]) (cstr (drop p buf)) \<noteq> []"
        using Some strtok_None[of buf p "[NL]"] by auto
      have tk: "tokens [NL] (cstr (drop p buf)) = t # tokens [NL] (cstr (drop p' buf'))"
        using ne strtok_Some(1,2)[OF Some[unfolded x]]
        by (subst tokens.simps) (simp add: Let_def)
      have ih: "fst (bcb_loop (argc + 1) buf' p') = take (MAX_ARGS - (argc + 1)) (tokens [NL] (cstr (drop p' buf')))"
          "length (snd (bcb_loop (argc + 1) buf' p')) = length buf'"
        using 1[OF True Some[unfolded x] refl refl] by auto
      have m: "MAX_ARGS - argc = Suc (MAX_ARGS - (argc + 1))" using True by simp
      show ?thesis
        using True Some x ih tk strtok_Some(3)[OF Some[unfolded x]]
        by (subst (1 2) bcb_loop.simps) (auto simp: m split: prod.splits)
    qed
  qed
qed

lemma cstr_update_beyond:
  "length (cstr b) \<le> n \<Longrightarrow> cstr (b[n := NUL]) = cstr b"
proof (induction b arbitrary: n)
  case Nil
  then show ?case by simp
next
  case (Cons c b)
  then show ?case by (cases n) (auto simp: cstr_def)
qed

lemma cstr_terminated:
  assumes "0 < length b"
  shows "length (cstr (b[length b - 1 := NUL])) < length b"
proof -
  let ?b = "b[length b - 1 := NUL]"
  let ?P = "\<lambda>c. c \<noteq> NUL"
  have "?b ! (length b - 1) = NUL" using assms by simp
  then have "NUL \<in> set ?b" using assms by (metis diff_less length_list_update nth_mem zero_less_one)
  then have "takeWhile ?P ?b \<noteq> ?b" by simp
  moreover have "takeWhile ?P ?b = take (length (takeWhile ?P ?b)) ?b" by (rule takeWhile_eq_take)
  moreover have "length (takeWhile ?P ?b) \<le> length ?b" by (rule length_takeWhile_le)
  ultimately have "length (takeWhile ?P ?b) < length ?b"
    by (metis le_neq_implies_less take_all order_refl)
  then show ?thesis by (simp add: cstr_def)
qed


lemma strtok_tokens_None:
  "strtok buf p delim = None \<Longrightarrow> tokens delim (cstr (drop p buf)) = []"
  using strtok_None[of buf p delim] by (simp add: tokens.simps)

lemma strtok_tokens_Some:
  assumes "strtok buf p delim = Some (t, buf', p')"
  shows "tokens delim (cstr (drop p buf)) = t # tokens delim (cstr (drop p' buf'))"
proof -
  have "dropWhile (\<lambda>c. c \<in> set delim) (cstr (drop p buf)) \<noteq> []"
    using assms strtok_None[of buf p delim] by auto
  then show ?thesis
    using strtok_Some(1,2)[OF assms] by (subst tokens.simps) (simp add: Let_def)
qed

lemma tokens_Nil: "tokens delim [] = []"
  by (simp add: tokens.simps)

lemma tokens_line:
  assumes "a \<noteq> []" "NL \<notin> set a"
  shows "tokens [NL] (a @ NL # rest) = a # tokens [NL] rest"
proof -
  obtain c cs where a: "a = c # cs" using assms(1) by (cases a) auto
  have c: "c \<noteq> NL" using assms(2) a by auto
  have 1: "dropWhile (\<lambda>c. c \<in> set [NL]) (a @ NL # rest) = a @ NL # rest"
    using c a by simp
  have 2: "takeWhile (\<lambda>c. c \<notin> set [NL]) (a @ NL # rest) = a"
    using assms(2) by (auto simp: takeWhile_tail)
  have "dropWhile (\<lambda>c. c \<notin> set [NL]) (a @ NL # rest) = NL # rest"
    using assms(2) by (auto simp: dropWhile_append3)
  then have 3: "drop 1 (dropWhile (\<lambda>c. c \<notin> set [NL]) (a @ NL # rest)) = rest"
    by simp
  have ne: "a @ NL # rest \<noteq> []" by simp
  show ?thesis
    by (subst tokens.simps) (simp only: Let_def 1 2 3 ne if_False)
qed

lemma tokens_arg_lines:
  "\<forall>a\<in>set as. a \<noteq> [] \<and> NL \<notin> set a \<Longrightarrow> tokens [NL] (arg_lines as) = as"
proof (induction as)
  case Nil
  then show ?case by (simp add: arg_lines_def tokens_Nil)
next
  case (Cons a as)
  have "arg_lines (a # as) = a @ NL # arg_lines as" by (simp add: arg_lines_def)
  then show ?case using Cons tokens_line[of a "arg_lines as"] by simp
qed

lemma from_bcb_live: "2 \<le> length argv \<Longrightarrow> from_bcb boot argv = (argv, boot)"
  by (simp add: from_bcb_def)

lemma from_command_file_live: "2 \<le> length argv \<Longrightarrow> from_command_file cmdfile argv = Inr argv"
  by (simp add: from_command_file_def)

lemma from_bcb_fields:
  "command (snd (from_bcb boot argv)) = command boot \<and>
   status (snd (from_bcb boot argv)) = status boot \<and>
   length (recovery (snd (from_bcb boot argv))) = length (recovery boot)"
proof (cases "length argv \<le> 1")
  case False
  then show ?thesis by (simp add: from_bcb_def)
next
  case True
  let ?r = "(recovery boot)[length (recovery boot) - 1 := NUL]"
  show ?thesis
  proof (cases "strtok ?r 0 [NL]")
    case None
    then show ?thesis using True by (simp add: from_bcb_def Let_def)
  next
    case (Some x)
    obtain t r' p where x: "x = (t, r', p)" by (cases x) auto
    have l: "length r' = length (recovery boot)"
      using strtok_Some(3)[OF Some[unfolded x]] by simp
    have "length (snd (bcb_loop 1 r' p)) = length r'" using bcb_loop_tokens[of 1 r' p] by simp
    then show ?thesis using True Some x l
      by (auto simp: from_bcb_def Let_def split: prod.splits)
  qed
qed

lemma from_bcb_tokens:
  assumes "length argv \<le> 1"
  shows "fst (from_bcb boot argv) =
     (case tokens [NL] (cstr ((recovery boot)[length (recovery boot) - 1 := NUL])) of
        [] \<Rightarrow> argv
      | t # ts \<Rightarrow> if t = ''recovery'' then Some t # map Some (take (MAX_ARGS - 1) ts) else argv)"
proof -
  let ?r = "(recovery boot)[length (recovery boot) - 1 := NUL]"
  show ?thesis
  proof (cases "strtok ?r 0 [NL]")
    case None
    then show ?thesis using assms strtok_tokens_None[OF None]
      by (simp add: from_bcb_def Let_def)
  next
    case (Some x)
    obtain t r' p where x: "x = (t, r', p)" by (cases x) auto
    have tk: "tokens [NL] (cstr ?r) = t # tokens [NL] (cstr (drop p r'))"
      using strtok_tokens_Some[OF Some[unfolded x]] by simp
    have "fst (bcb_loop 1 r' p) = take (MAX_ARGS - 1) (tokens [NL] (cstr (drop p r')))"
      using bcb_loop_tokens[of 1 r' p] by simp
    then show ?thesis using assms Some x tk
      by (auto simp: from_bcb_def Let_def split: prod.splits)
  qed
qed


lemma get_args_live:
  "2 \<le> length argv \<Longrightarrow>
   get_args boot cmdfile argv =
     (case write_args (strlcpy (recovery boot) (''recovery'' @ [NL]) (length (recovery boot))) (drop 1 argv) of
        Inl f \<Rightarrow> Inl f
      | Inr r' \<Rightarrow> Inr (argv, boot\<lparr>command := strlcpy (command boot) ''boot-recovery'' (length (command boot)),
                                  recovery := r'\<rparr>))"
  by (simp add: get_args_def from_bcb_live from_command_file_live Let_def)

lemma get_args_via_bcb:
  "from_bcb boot argv = (argv1, boot1) \<Longrightarrow> 2 \<le> length argv1 \<Longrightarrow>
   get_args boot cmdfile argv = get_args boot1 cmdfile' argv1"
  by (simp add: get_args_def from_bcb_live from_command_file_live Let_def)

lemma cstr_strlcpy_cong:
  assumes "length d1 = length d2"
  shows "cstr (strlcpy d1 s (length d1)) = cstr (strlcpy d2 s (length d2))"
proof (cases "length d1 = 0")
  case True
  then show ?thesis using assms by (simp add: strlcpy_def)
next
  case False
  then show ?thesis
    using assms cstr_strlcpy_gen[of "length d1" d1 s] cstr_strlcpy_gen[of "length d2" d2 s] by simp
qed

lemma get_args_encode:
  assumes "args \<noteq> []" "\<forall>a\<in>set args. NUL \<notin> set a" "0 < length (recovery boot)"
  shows "\<exists>b. get_args boot cmdfile (Some prog # map Some args) = Inr (Some prog # map Some args, b) \<and>
             length (recovery b) = length (recovery boot) \<and>
             length (command b) = length (command boot) \<and>
             status b = status boot \<and>
             cstr (recovery b) = take (length (recovery boot) - 1) (''recovery'' @ NL # arg_lines args)"
proof -
  let ?n = "length (recovery boot)"
  let ?e = "''recovery'' @ [NL]"
  let ?b0 = "strlcpy (recovery boot) ?e ?n"
  have l0: "length ?b0 = ?n" by (simp add: length_strlcpy)
  have c0: "cstr ?b0 = take (?n - 1) ?e" using assms(3) by (intro cstr_strlcpy) simp_all
  have "length (cstr ?b0) \<le> ?n - 1" unfolding c0 by simp
  then have "length (cstr ?b0) < length ?b0" using l0 assms(3) by linarith
  then obtain r where r: "write_args ?b0 (map Some args) = Inr r" "length r = length ?b0"
      "cstr r = take (length ?b0 - 1) (cstr ?b0 @ concat (map (\<lambda>a. a @ [NL]) args))"
    using write_args_cstr[of ?b0 args] assms(2) by blast
  have "cstr r = take (?n - 1) (?e @ arg_lines args)"
    using r(3) l0 c0 take_take_append[of "?n - 1" ?e "arg_lines args"] by (simp add: arg_lines_def)
  moreover have "2 \<le> length (Some prog # map Some args)" using assms(1) by (cases args) auto
  ultimately show ?thesis using r(1,2) l0
    by (simp add: get_args_live length_strlcpy)
qed


lemma get_args_live_total:
  assumes "2 \<le> length argv" "None \<notin> set argv"
  shows "\<exists>b. get_args boot cmdfile argv = Inr (argv, b) \<and>
             length (recovery b) = length (recovery boot) \<and>
             length (command b) = length (command boot) \<and> status b = status boot"
proof -
  let ?b0 = "strlcpy (recovery boot) (''recovery'' @ [NL]) (length (recovery boot))"
  have "None \<notin> set (drop 1 argv)" using assms(2) by (auto dest: in_set_dropD)
  then obtain r where r: "write_args ?b0 (drop 1 argv) = Inr r"
    using write_args_total by blast
  then have "length r = length ?b0" by (rule write_args_length)
  then show ?thesis using r assms(1) by (simp add: get_args_live length_strlcpy)
qed

lemma tokens_single:
  assumes "s \<noteq> []" "NL \<notin> set s"
  shows "tokens [NL] s = [s]"
proof -
  obtain c cs where s: "s = c # cs" using assms(1) by (cases s) auto
  have c: "c \<noteq> NL" using assms(2) s by auto
  have 1: "dropWhile (\<lambda>c. c \<in> set [NL]) s = s" using c s by simp
  have a: "\<forall>x\<in>set s. x \<notin> set [NL]" using assms(2) by auto
  have 2: "takeWhile (\<lambda>c. c \<notin> set [NL]) s = s"
    using a takeWhile_eq_all_conv[of "\<lambda>c. c \<notin> set [NL]" s] by blast
  have "dropWhile (\<lambda>c. c \<notin> set [NL]) s = []"
    using a dropWhile_eq_Nil_conv[of "\<lambda>c. c \<notin> set [NL]" s] by blast
  then have 3: "drop 1 (dropWhile (\<lambda>c. c \<notin> set [NL]) s) = []" by (simp only: drop_Nil)
  show ?thesis
    by (subst tokens.simps) (simp only: Let_def 1 2 3 assms(1) if_False tokens_Nil)
qed

lemma two_boots_decode:
  assumes "args \<noteq> []" "\<forall>a\<in>set args. NUL \<notin> set a" "0 < length (recovery boot)"
    and "length argv' \<le> 1"
    and "tokens [NL] (take (length (recovery boot) - 1) (''recovery'' @ NL # arg_lines args)) = ''recovery'' # ts"
    and "ts \<noteq> []"
  shows "two_boots boot cmdfile (Some prog # map Some args) cmdfile' argv' =
           Inr (Some ''recovery'' # map Some (take (MAX_ARGS - 1) ts))"
proof -
  let ?n = "length (recovery boot)"
  let ?T = "take (?n - 1) (''recovery'' @ NL # arg_lines args)"
  obtain b where b: "get_args boot cmdfile (Some prog # map Some args) = Inr (Some prog # map Some args, b)"
      "length (recovery b) = ?n" "cstr (recovery b) = ?T"
    using get_args_encode[OF assms(1,2,3)] by blast
  have "length (cstr (recovery b)) \<le> length (recovery b) - 1"
    unfolding b(2,3) by simp
  then have "cstr ((recovery b)[length (recovery b) - 1 := NUL]) = ?T"
    using cstr_update_beyond b(3) by simp
  then have f: "fst (from_bcb b argv') = Some ''recovery'' # map Some (take (MAX_ARGS - 1) ts)"
    using from_bcb_tokens[OF assms(4), of b] assms(5) by simp
  let ?argv1 = "Some ''recovery'' # map Some (take (MAX_ARGS - 1) ts)"
  obtain boot1 where b1: "from_bcb b argv' = (?argv1, boot1)"
    using f by (cases "from_bcb b argv'") auto
  have "take (MAX_ARGS - 1) ts \<noteq> []" using assms(6) by (cases ts) (auto simp: MAX_ARGS_def)
  then have l: "2 \<le> length ?argv1" by (cases "take (MAX_ARGS - 1) ts") auto
  have "None \<notin> set ?argv1" by auto
  then obtain b' where "get_args boot1 cmdfile' ?argv1 = Inr (?argv1, b')"
    using get_args_live_total[OF l, of boot1 cmdfile'] by blast
  then have "get_args b cmdfile' argv' = Inr (?argv1, b')"
    using get_args_via_bcb[OF b1 l, of cmdfile' cmdfile'] by simp
  then show ?thesis using b(1) by (simp add: two_boots_def)
qed


section \<open>Argument resolution\<close>

text \<open>
  Claim C3. When \<open>get_args\<close> is entered with \<open>argc \<ge> 2\<close> (every \<open>argv[i]\<close> a string),
  it returns the live arguments as they are. Neither \<open>boot.recovery\<close> nor the command
  file is consulted: with any other content \<open>r\<close> of the recovery field and any other
  command file the same arguments come back, and the control block that is written has
  the same command, the same status and the same string in its recovery field.
\<close>

theorem get_args_live_arguments:
  assumes "2 \<le> length argv" and "None \<notin> set argv" and "length r = length (recovery boot)"
  shows "\<exists>b b'. get_args boot cmdfile argv = Inr (argv, b) \<and>
                get_args (boot\<lparr>recovery := r\<rparr>) cmdfile' argv = Inr (argv, b') \<and>
                command b' = command b \<and> status b' = status b \<and>
                length (recovery b') = length (recovery b) \<and>
                cstr (recovery b') = cstr (recovery b)"
proof -
  let ?e = "''recovery'' @ [NL]"
  let ?b0 = "strlcpy (recovery boot) ?e (length (recovery boot))"
  let ?b0' = "strlcpy r ?e (length r)"
  let ?c = "strlcpy (command boot) ''boot-recovery'' (length (command boot))"
  have nn: "None \<notin> set (drop 1 argv)" using assms(2) by (auto dest: in_set_dropD)
  obtain r1 where r1: "write_args ?b0 (drop 1 argv) = Inr r1"
    using write_args_total[OF nn] by blast
  obtain r2 where r2: "write_args ?b0' (drop 1 argv) = Inr r2"
    using write_args_total[OF nn] by blast
  have l: "length ?b0 = length ?b0'" using assms(3) by (simp add: length_strlcpy)
  have "cstr ?b0 = cstr ?b0'" using assms(3) cstr_strlcpy_cong[of "recovery boot" r ?e] by simp
  then have c: "cstr r1 = cstr r2" using write_args_cong[OF l _ r1 r2] by simp
  have "length r1 = length r2"
    using write_args_length[OF r1] write_args_length[OF r2] l by simp
  then show ?thesis
    using assms(1) r1 r2 c by (simp add: get_args_live)
qed

theorem get_args_live_arguments_witness:
  "2 \<le> length [Some ''/sbin/recovery'', Some ''--wipe_data''] \<and>
   None \<notin> set [Some ''/sbin/recovery'', Some ''--wipe_data''] \<and>
   length (''recovery'' @ [NL] @ ''--wipe_cache'' @ [NL] @ replicate 1002 NUL) = length (recovery (zero_bcb 32 32 1024)) \<and>
   (\<exists>b b'. get_args (zero_bcb 32 32 1024) None [Some ''/sbin/recovery'', Some ''--wipe_data'']
               = Inr ([Some ''/sbin/recovery'', Some ''--wipe_data''], b) \<and>
            get_args ((zero_bcb 32 32 1024)\<lparr>recovery := ''recovery'' @ [NL] @ ''--wipe_cache'' @ [NL] @ replicate 1002 NUL\<rparr>)
                (Some (''--just_exit'' @ [NL])) [Some ''/sbin/recovery'', Some ''--wipe_data'']
               = Inr ([Some ''/sbin/recovery'', Some ''--wipe_data''], b') \<and>
            command b' = command b \<and> status b' = status b \<and>
            length (recovery b') = length (recovery b) \<and> cstr (recovery b') = cstr (recovery b))"
proof -
  have h1: "2 \<le> length [Some ''/sbin/recovery'', Some ''--wipe_data'']" by simp
  have h2: "None \<notin> set [Some ''/sbin/recovery'', Some ''--wipe_data'']" by simp
  have h3: "length (''recovery'' @ [NL] @ ''--wipe_cache'' @ [NL] @ replicate 1002 NUL) = length (recovery (zero_bcb 32 32 1024))"
    by (simp add: zero_bcb_def)
  show ?thesis
    using h1 h2 h3 get_args_live_arguments[OF h1 h2 h3, of None "Some (''--just_exit'' @ [NL])"]
    by blast
qed

text \<open>
  Claim C1 (as amended). Let the live arguments be \<open>prog\<close> followed by at least one
  argument, none containing a NUL, and let the recovery field have a positive size.
  Then \<open>get_args\<close> returns them, never changes the size of the field, and leaves in it
  the string "recovery", newline, every argument followed by a newline, cut to the size of
  the field minus one. When there are fewer than \<open>MAX_ARGS\<close> such arguments, each is
  non-empty and free of newlines, and the whole string is shorter than the field, then
  the \<open>get_args\<close> of the next boot, entered with \<open>argc \<le> 1\<close>, returns "recovery" followed
  by the same arguments in order, whatever the command file holds, and writes the same
  string again.
\<close>

theorem bcb_round_trip:
  assumes "args \<noteq> []" and "\<forall>a\<in>set args. NUL \<notin> set a" and "0 < length (recovery boot)"
  shows "\<exists>b. get_args boot cmdfile (Some prog # map Some args) = Inr (Some prog # map Some args, b) \<and>
             length (recovery b) = length (recovery boot) \<and>
             cstr (recovery b) = take (length (recovery boot) - 1) (''recovery'' @ NL # arg_lines args) \<and>
             (length args < MAX_ARGS \<and> (\<forall>a\<in>set args. a \<noteq> [] \<and> NL \<notin> set a) \<and>
              length (''recovery'' @ NL # arg_lines args) < length (recovery boot) \<and>
              length argv' \<le> 1 \<longrightarrow>
                two_boots boot cmdfile (Some prog # map Some args) cmdfile' argv'
                  = Inr (Some ''recovery'' # map Some args) \<and>
                (\<exists>b'. get_args b cmdfile' argv' = Inr (Some ''recovery'' # map Some args, b') \<and>
                      cstr (recovery b') = cstr (recovery b)))"
proof -
  let ?n = "length (recovery boot)"
  let ?E = "''recovery'' @ NL # arg_lines args"
  let ?argv = "Some prog # map Some args"
  let ?argv1 = "Some ''recovery'' # map Some args"
  obtain b where b: "get_args boot cmdfile ?argv = Inr (?argv, b)"
      "length (recovery b) = ?n" "cstr (recovery b) = take (?n - 1) ?E"
    using get_args_encode[OF assms] by blast
  have "two_boots boot cmdfile ?argv cmdfile' argv' = Inr ?argv1 \<and>
        (\<exists>b'. get_args b cmdfile' argv' = Inr (?argv1, b') \<and> cstr (recovery b') = cstr (recovery b))"
    if fit: "length args < MAX_ARGS" "\<forall>a\<in>set args. a \<noteq> [] \<and> NL \<notin> set a"
        "length ?E < ?n" "length argv' \<le> 1"
  proof -
    have E: "take (?n - 1) ?E = ?E" using fit(3) by simp
    have "?E = arg_lines (''recovery'' # args)" by (simp add: arg_lines_def)
    moreover have "\<forall>a\<in>set (''recovery'' # args). a \<noteq> [] \<and> NL \<notin> set a" using fit(2) by simp
    ultimately have tk: "tokens [NL] ?E = ''recovery'' # args"
      using tokens_arg_lines[of "''recovery'' # args"] by simp
    have tk': "tokens [NL] (take (?n - 1) ?E) = ''recovery'' # args" using tk E by simp
    have t99: "take (MAX_ARGS - 1) args = args" using fit(1) by simp
    have tb: "two_boots boot cmdfile ?argv cmdfile' argv' = Inr ?argv1"
      using two_boots_decode[OF assms fit(4) tk' assms(1), of cmdfile prog cmdfile'] t99 by simp
    have "length (cstr (recovery b)) \<le> length (recovery b) - 1" unfolding b(2,3) by simp
    then have "cstr ((recovery b)[length (recovery b) - 1 := NUL]) = ?E"
      using cstr_update_beyond b(3) E by simp
    then have f: "fst (from_bcb b argv') = ?argv1"
      using from_bcb_tokens[OF fit(4), of b] tk t99 by simp
    obtain boot1 where b1: "from_bcb b argv' = (?argv1, boot1)"
      using f by (cases "from_bcb b argv'") auto
    have l: "2 \<le> length ?argv1" using assms(1) by (cases args) auto
    have n1: "length (recovery boot1) = ?n"
      using from_bcb_fields[of b argv'] b1 b(2) by simp
    then have "0 < length (recovery boot1)" using assms(3) by simp
    then obtain b' where b': "get_args boot1 cmdfile' ?argv1 = Inr (?argv1, b')"
        "cstr (recovery b') = take (length (recovery boot1) - 1) ?E"
      using get_args_encode[OF assms(1,2), of boot1 cmdfile' "''recovery''"] by blast
    have "get_args b cmdfile' argv' = Inr (?argv1, b')"
      using get_args_via_bcb[OF b1 l, of cmdfile' cmdfile'] b'(1) by simp
    moreover have "cstr (recovery b') = cstr (recovery b)" using b'(2) n1 b(3) by simp
    ultimately show ?thesis using tb by blast
  qed
  then show ?thesis using b by blast
qed


theorem bcb_round_trip_witness:
  "[''--wipe_data'', ''--wipe_cache''] \<noteq> [] \<and>
   list_all (\<lambda>a. NUL \<notin> set a) [''--wipe_data'', ''--wipe_cache''] \<and>
   0 < length (recovery (zero_bcb 32 32 1024)) \<and>
   length [''--wipe_data'', ''--wipe_cache''] < MAX_ARGS \<and>
   list_all (\<lambda>a. a \<noteq> [] \<and> NL \<notin> set a) [''--wipe_data'', ''--wipe_cache''] \<and>
   length (''recovery'' @ NL # arg_lines [''--wipe_data'', ''--wipe_cache''])
     < length (recovery (zero_bcb 32 32 1024)) \<and>
   length [Some ''/sbin/recovery''] \<le> 1 \<and>
   two_boots (zero_bcb 32 32 1024) None
       [Some ''/sbin/recovery'', Some ''--wipe_data'', Some ''--wipe_cache'']
       (Some (''--just_exit'' @ [NL])) [Some ''/sbin/recovery'']
     = Inr [Some ''recovery'', Some ''--wipe_data'', Some ''--wipe_cache'']"
proof -
  let ?args = "[''--wipe_data'', ''--wipe_cache'']"
  let ?boot = "zero_bcb 32 32 1024"
  have h1: "?args \<noteq> []" by simp
  have h2: "\<forall>a\<in>set ?args. NUL \<notin> set a" by simp
  have h3: "0 < length (recovery ?boot)" by (simp add: zero_bcb_def)
  have f1: "length ?args < MAX_ARGS" by (simp add: MAX_ARGS_def)
  have f2: "\<forall>a\<in>set ?args. a \<noteq> [] \<and> NL \<notin> set a" by simp
  have f3: "length (''recovery'' @ NL # arg_lines ?args) < length (recovery ?boot)"
    by (simp add: zero_bcb_def arg_lines_def)
  have f4: "length [Some ''/sbin/recovery''] \<le> 1" by simp
  have "two_boots ?boot None (Some ''/sbin/recovery'' # map Some ?args)
          (Some (''--just_exit'' @ [NL])) [Some ''/sbin/recovery'']
        = Inr (Some ''recovery'' # map Some ?args)"
    using bcb_round_trip[OF h1 h2 h3, of None "''/sbin/recovery''" "[Some ''/sbin/recovery'']"
        "Some (''--just_exit'' @ [NL])"] f1 f2 f3 f4
    by blast
  then show ?thesis using h1 h2 h3 f1 f2 f3 f4 by simp
qed

theorem bcb_round_trip_counterexample:
  "two_boots (zero_bcb 32 32 1024) None
       [Some ''/sbin/recovery'', Some ''--wipe_cache'', Some '''']
       None [Some ''/sbin/recovery'']
     = Inr [Some ''recovery'', Some ''--wipe_cache''] \<and>
   two_boots (zero_bcb 32 32 1024) None
       [Some ''/sbin/recovery'', Some (''--locale=en'' @ [NL] @ ''US'')]
       None [Some ''/sbin/recovery'']
     = Inr [Some ''recovery'', Some ''--locale=en'', Some ''US''] \<and>
   two_boots (zero_bcb 32 32 1024) None
       [Some ''/sbin/recovery'', Some (replicate 4095 (CHR ''a''))]
       None [Some ''/sbin/recovery'']
     = Inr [Some ''recovery'', Some (replicate 1014 (CHR ''a''))] \<and>
   two_boots (zero_bcb 32 32 1024) None
       (Some ''/sbin/recovery'' # replicate 100 (Some ''a''))
       None [Some ''/sbin/recovery'']
     = Inr (Some ''recovery'' # replicate 99 (Some ''a''))"
proof -
  let ?boot = "zero_bcb 32 32 1024"
  have h3: "0 < length (recovery ?boot)" by (simp add: zero_bcb_def)
  have n: "length (recovery ?boot) - 1 = 1023" by (simp add: zero_bcb_def)
  have l: "length [Some ''/sbin/recovery''] \<le> 1" by simp
  have m: "MAX_ARGS - 1 = 99" by (simp add: MAX_ARGS_def)
  have t1: "tokens [NL] (take (length (recovery ?boot) - 1) (''recovery'' @ NL # arg_lines [''--wipe_cache'', '''']))
              = ''recovery'' # [''--wipe_cache'']"
  proof -
    have "take 1023 (''recovery'' @ NL # arg_lines [''--wipe_cache'', ''''])
            = ''recovery'' @ NL # ''--wipe_cache'' @ NL # [NL]"
      by (simp add: arg_lines_def)
    moreover have "tokens [NL] [NL] = []" by (subst tokens.simps) simp
    ultimately show ?thesis
      using tokens_line[of "''recovery''" "''--wipe_cache'' @ NL # [NL]"]
        tokens_line[of "''--wipe_cache''" "[NL]"] n
      by simp
  qed
  have c1: "two_boots ?boot None [Some ''/sbin/recovery'', Some ''--wipe_cache'', Some '''']
              None [Some ''/sbin/recovery''] = Inr [Some ''recovery'', Some ''--wipe_cache'']"
    using two_boots_decode[OF _ _ h3 l t1, of None "''/sbin/recovery''" None] m by simp
  have t2: "tokens [NL] (take (length (recovery ?boot) - 1)
                (''recovery'' @ NL # arg_lines [''--locale=en'' @ [NL] @ ''US'']))
              = ''recovery'' # [''--locale=en'', ''US'']"
  proof -
    have "take 1023 (''recovery'' @ NL # arg_lines [''--locale=en'' @ [NL] @ ''US''])
            = ''recovery'' @ NL # ''--locale=en'' @ NL # ''US'' @ NL # []"
      by (simp add: arg_lines_def)
    then show ?thesis
      using tokens_line[of "''recovery''" "''--locale=en'' @ NL # ''US'' @ NL # []"]
        tokens_line[of "''--locale=en''" "''US'' @ NL # []"]
        tokens_line[of "''US''" "[]"] n
      by (simp add: tokens_Nil)
  qed
  have c2: "two_boots ?boot None [Some ''/sbin/recovery'', Some (''--locale=en'' @ [NL] @ ''US'')]
              None [Some ''/sbin/recovery''] = Inr [Some ''recovery'', Some ''--locale=en'', Some ''US'']"
    using two_boots_decode[OF _ _ h3 l t2, of None "''/sbin/recovery''" None] m by simp
  have t3: "tokens [NL] (take (length (recovery ?boot) - 1)
                (''recovery'' @ NL # arg_lines [replicate 4095 (CHR ''a'')]))
              = ''recovery'' # [replicate 1014 (CHR ''a'')]"
  proof -
    have "take 1023 (''recovery'' @ NL # arg_lines [replicate 4095 (CHR ''a'')])
            = ''recovery'' @ NL # replicate 1014 (CHR ''a'')"
      by (simp add: arg_lines_def)
    moreover have "tokens [NL] (replicate 1014 (CHR ''a'')) = [replicate 1014 (CHR ''a'')]"
      by (rule tokens_single) simp_all
    ultimately show ?thesis
      using tokens_line[of "''recovery''" "replicate 1014 (CHR ''a'')"] n
      by simp
  qed
  have c3: "two_boots ?boot None [Some ''/sbin/recovery'', Some (replicate 4095 (CHR ''a''))]
              None [Some ''/sbin/recovery''] = Inr [Some ''recovery'', Some (replicate 1014 (CHR ''a''))]"
    using two_boots_decode[OF _ _ h3 l t3, of None "''/sbin/recovery''" None] m by simp
  have t4: "tokens [NL] (take (length (recovery ?boot) - 1)
                (''recovery'' @ NL # arg_lines (replicate 100 ''a'')))
              = ''recovery'' # replicate 100 ''a''"
  proof -
    have "length (arg_lines (replicate 100 ''a'')) = 200"
      by (simp add: arg_lines_def length_concat sum_list_replicate)
    then have "take 1023 (''recovery'' @ NL # arg_lines (replicate 100 ''a''))
            = ''recovery'' @ NL # arg_lines (replicate 100 ''a'')"
      by simp
    moreover have "tokens [NL] (arg_lines (replicate 100 ''a'')) = replicate 100 ''a''"
      by (rule tokens_arg_lines) simp
    ultimately show ?thesis
      using tokens_line[of "''recovery''" "arg_lines (replicate 100 ''a'')"] n
      by simp
  qed
  have "two_boots ?boot None (Some ''/sbin/recovery'' # map Some (replicate 100 ''a''))
              None [Some ''/sbin/recovery''] = Inr (Some ''recovery'' # map Some (take 99 (replicate 100 ''a'')))"
    using two_boots_decode[OF _ _ h3 l t4, of None "''/sbin/recovery''" None] m by simp
  then have c4: "two_boots ?boot None (Some ''/sbin/recovery'' # replicate 100 (Some ''a''))
              None [Some ''/sbin/recovery''] = Inr (Some ''recovery'' # replicate 99 (Some ''a''))"
    by simp
  show ?thesis using c1 c2 c3 c4 by blast
qed


lemma strtok_line_None: "strtok (line @ [NUL]) 0 [CR, NL] = None \<longleftrightarrow> blank line"
proof -
  have "cstr (drop 0 (line @ [NUL])) = cstr line" using cstr_append_NUL_gen[of line "[]"] by simp
  then show ?thesis
    using strtok_None[of "line @ [NUL]" 0 "[CR, NL]"]
    by (auto simp: blank_def list_all_iff)
qed

lemma command_file_loop_fault:
  "(command_file_loop argc s = Inl f \<longrightarrow> f = NullDereference) \<and>
   ((\<exists>f. command_file_loop argc s = Inl f) \<longleftrightarrow> list_ex blank (file_lines (MAX_ARGS - argc) s)) \<and>
   (\<forall>args. command_file_loop argc s = Inr args \<longrightarrow> None \<notin> set args)"
proof (induction argc s rule: command_file_loop.induct)
  case (1 argc s)
  show ?case
  proof (cases "argc < MAX_ARGS")
    case False
    then show ?thesis by (simp add: command_file_loop.simps)
  next
    case True
    then have m: "MAX_ARGS - argc = Suc (MAX_ARGS - (argc + 1))" by simp
    show ?thesis
    proof (cases "fgets MAX_ARG_LENGTH s")
      case None
      then show ?thesis using True by (simp add: command_file_loop.simps m)
    next
      case (Some x)
      obtain line rest where x: "x = (line, rest)" by (cases x) auto
      show ?thesis
      proof (cases "strtok (line @ [NUL]) 0 [CR, NL]")
        case None
        then have "blank line" using strtok_line_None by simp
        then show ?thesis using True Some x None
          by (simp add: command_file_loop.simps[of argc s] m)
      next
        case (Some y)
        obtain arg b q where y: "y = (arg, b, q)" by (cases y) auto
        have nb: "\<not> blank line" using Some strtok_line_None[of line] by simp
        note ih = 1[OF True \<open>fgets MAX_ARG_LENGTH s = Some x\<close> x[symmetric] Some[unfolded y] refl refl]
        show ?thesis
          using True \<open>fgets MAX_ARG_LENGTH s = Some x\<close> x Some y nb ih
          by (auto simp: command_file_loop.simps[of argc s] m split: sum.splits)
      qed
    qed
  qed
qed


lemma get_args_command_file:
  assumes "length (fst (from_bcb boot argv)) \<le> 1"
  shows "(command_file_loop 1 content = Inl f \<longrightarrow> get_args boot (Some content) argv = Inl f) \<and>
         (command_file_loop 1 content = Inr args \<longrightarrow>
            (\<exists>b. get_args boot (Some content) argv =
                   Inr ((case fst (from_bcb boot argv) of [] \<Rightarrow> None | a # _ \<Rightarrow> a) # args, b)))"
proof -
  obtain argv1 boot1 where fb: "from_bcb boot argv = (argv1, boot1)"
    by (cases "from_bcb boot argv") auto
  have l: "length argv1 \<le> 1" using assms fb by simp
  have "get_args boot (Some content) argv = Inl f" if "command_file_loop 1 content = Inl f"
    using that fb l by (simp add: get_args_def from_command_file_def)
  moreover have "\<exists>b. get_args boot (Some content) argv =
        Inr ((case argv1 of [] \<Rightarrow> None | a # _ \<Rightarrow> a) # args, b)"
    if c: "command_file_loop 1 content = Inr args"
  proof -
    have "None \<notin> set args" using command_file_loop_fault[of 1 content] c by blast
    then obtain r where "write_args (strlcpy (recovery boot1) (''recovery'' @ [NL]) (length (recovery boot1))) args = Inr r"
      using write_args_total by blast
    then show ?thesis using c fb l
      by (simp add: get_args_def from_command_file_def Let_def)
  qed
  ultimately show ?thesis using fb by simp
qed

lemma get_args_blank_line:
  assumes "length (fst (from_bcb boot argv)) \<le> 1"
  shows "(list_ex blank (file_lines (MAX_ARGS - 1) content) \<longrightarrow>
            get_args boot (Some content) argv = Inl NullDereference) \<and>
         (\<not> list_ex blank (file_lines (MAX_ARGS - 1) content) \<longrightarrow>
            (\<exists>r. get_args boot (Some content) argv = Inr r))"
proof (cases "command_file_loop 1 content")
  case (Inl f)
  then have "f = NullDereference" "list_ex blank (file_lines (MAX_ARGS - 1) content)"
    using command_file_loop_fault[of 1 content] by blast+
  then show ?thesis using Inl get_args_command_file[OF assms, of content f] by simp
next
  case (Inr args)
  then have "\<not> list_ex blank (file_lines (MAX_ARGS - 1) content)"
    using command_file_loop_fault[of 1 content] by auto
  then show ?thesis using Inr get_args_command_file[OF assms, of content _ args] by auto
qed

lemma from_bcb_zero:
  assumes "length argv \<le> 1"
  shows "fst (from_bcb (zero_bcb c s r) argv) = argv"
proof -
  have "cstr (replicate r NUL) = []" by (cases r) (simp_all add: cstr_def)
  then have "cstr ((replicate r NUL)[r - 1 := NUL]) = []"
    using cstr_update_beyond[of "replicate r NUL" "r - 1"] by simp
  then show ?thesis
    using from_bcb_tokens[OF assms, of "zero_bcb c s r"] by (simp add: zero_bcb_def tokens_Nil)
qed

lemma fgets_line:
  assumes "NL \<notin> set a" "length a + 1 < n"
  shows "fgets n (a @ NL # rest0) = Some (a @ [NL], rest0)"
proof -
  have "take (n - 1) (a @ NL # rest0) = a @ NL # take (n - 1 - length a - 1) rest0"
    using assms(2) by (simp add: take_Cons')
  moreover have "\<forall>x\<in>set a. x \<noteq> NL" using assms(1) by auto
  ultimately have pre: "takeWhile (\<lambda>c. c \<noteq> NL) (take (n - 1) (a @ NL # rest0)) = a"
    by (simp add: takeWhile_tail)
  have "fgets n (a @ NL # rest0) =
      Some (if length a < n - 1 \<and> length a < length (a @ NL # rest0)
            then take (length a + 1) (a @ NL # rest0) else a,
            drop (length (if length a < n - 1 \<and> length a < length (a @ NL # rest0)
                          then take (length a + 1) (a @ NL # rest0) else a)) (a @ NL # rest0))"
    by (simp only: fgets_def Let_def pre) simp
  then show ?thesis using assms(2) by simp
qed

lemma strtok_line_Some:
  assumes "a \<noteq> []" "CR \<notin> set a" "NL \<notin> set a" "NUL \<notin> set a"
  shows "\<exists>b q. strtok ((a @ [NL]) @ [NUL]) 0 [CR, NL] = Some (a, b, q)"
proof -
  obtain c cs where a: "a = c # cs" using assms(1) by (cases a) auto
  have c: "c \<noteq> CR" "c \<noteq> NL" using assms(2,3) a by auto
  have nz: "NUL \<notin> set (a @ [NL])" using assms(4) by simp
  have cs: "cstr (drop 0 ((a @ [NL]) @ [NUL])) = a @ [NL]"
    using cstr_append_NUL[OF nz, of "[]"] by simp
  have d: "dropWhile (\<lambda>c. c \<in> set [CR, NL]) (a @ [NL]) = a @ [NL]" using a c by simp
  have "\<forall>x\<in>set a. x \<notin> set [CR, NL]" using assms(2,3) by auto
  then have t: "takeWhile (\<lambda>c. c \<notin> set [CR, NL]) (a @ [NL]) = a"
    by (simp add: takeWhile_tail)
  have "strtok ((a @ [NL]) @ [NUL]) 0 [CR, NL] \<noteq> None"
    unfolding strtok_None cs d by simp
  then obtain t' b q where s: "strtok ((a @ [NL]) @ [NUL]) 0 [CR, NL] = Some (t', b, q)"
    by (cases "strtok ((a @ [NL]) @ [NUL]) 0 [CR, NL]") auto
  have "t' = a" using strtok_Some(1)[OF s] cs d t by simp
  then show ?thesis using s by blast
qed

lemma command_file_loop_lines:
  assumes "a \<noteq> []" "CR \<notin> set a" "NL \<notin> set a" "NUL \<notin> set a" "length a + 1 < MAX_ARG_LENGTH"
  shows "argc + k = MAX_ARGS \<Longrightarrow>
         command_file_loop argc (concat (replicate k (a @ [NL])) @ rest) = Inr (replicate k (Some a))"
proof (induction k arbitrary: argc)
  case 0
  then show ?case by (simp add: command_file_loop.simps)
next
  case (Suc k)
  let ?rest0 = "concat (replicate k (a @ [NL])) @ rest"
  have s: "concat (replicate (Suc k) (a @ [NL])) @ rest = a @ NL # ?rest0" by simp
  have lt: "argc < MAX_ARGS" using Suc.prems by simp
  have fg: "fgets MAX_ARG_LENGTH (a @ NL # ?rest0) = Some (a @ [NL], ?rest0)"
    using fgets_line[OF assms(3,5)] by simp
  obtain b q where st: "strtok ((a @ [NL]) @ [NUL]) 0 [CR, NL] = Some (a, b, q)"
    using strtok_line_Some[OF assms(1-4)] by blast
  have ih: "command_file_loop (argc + 1) ?rest0 = Inr (replicate k (Some a))"
    using Suc.IH[of "argc + 1"] Suc.prems by simp
  show ?case
    unfolding s using lt fg st ih
    by (subst command_file_loop.simps) simp
qed


text \<open>
  Claim C10 (as amended). Let the command file be consulted: \<open>argc \<le> 1\<close>, the control
  block supplies no argument and \<open>fopen_path\<close> gives the file. When one of the lines
  that the loop reads (at most \<open>MAX_ARGS - 1\<close> calls of \<open>fgets\<close>) holds nothing but CR
  and LF, \<open>strtok\<close> returns NULL, \<open>strdup\<close> dereferences it and \<open>get_args\<close> does
  not return. When none of these lines is blank, \<open>get_args\<close> returns.
\<close>

theorem get_args_blank_line_null_dereference:
  assumes "length (fst (from_bcb boot argv)) \<le> 1"
  shows "(list_ex blank (file_lines (MAX_ARGS - 1) content) \<longrightarrow>
            get_args boot (Some content) argv = Inl NullDereference) \<and>
         (\<not> list_ex blank (file_lines (MAX_ARGS - 1) content) \<longrightarrow>
            (\<exists>r. get_args boot (Some content) argv = Inr r))"
  using get_args_blank_line[OF assms] .

theorem get_args_blank_line_null_dereference_witness:
  "length (fst (from_bcb (zero_bcb 32 32 1024) [Some ''/sbin/recovery''])) \<le> 1 \<and>
   list_ex blank (file_lines (MAX_ARGS - 1) (''--wipe_data'' @ [NL, NL])) \<and>
   get_args (zero_bcb 32 32 1024) (Some (''--wipe_data'' @ [NL, NL])) [Some ''/sbin/recovery'']
     = Inl NullDereference"
proof -
  have h: "length (fst (from_bcb (zero_bcb 32 32 1024) [Some ''/sbin/recovery''])) \<le> 1"
    by (simp add: from_bcb_zero)
  have b: "list_ex blank (file_lines (MAX_ARGS - 1) (''--wipe_data'' @ [NL, NL]))"
    by code_simp
  show ?thesis
    using h b get_args_blank_line_null_dereference[OF h, of "''--wipe_data'' @ [NL, NL]"]
    by blast
qed

theorem get_args_blank_line_counterexample:
  "map_sum id fst
     (get_args (zero_bcb 32 32 1024) (Some (concat (replicate 99 (''--a'' @ [NL])) @ [NL]))
        [Some ''/sbin/recovery''])
     = Inr (Some ''/sbin/recovery'' # replicate 99 (Some ''--a'')) \<and>
   map_sum id fst
     (get_args (zero_bcb 32 32 1024) (Some [NL]) [Some ''/sbin/recovery'', Some ''--wipe_data''])
     = Inr [Some ''/sbin/recovery'', Some ''--wipe_data'']"
proof -
  let ?boot = "zero_bcb 32 32 1024"
  have f: "fst (from_bcb ?boot [Some ''/sbin/recovery'']) = [Some ''/sbin/recovery'']"
    by (simp add: from_bcb_zero)
  then have h: "length (fst (from_bcb ?boot [Some ''/sbin/recovery''])) \<le> 1" by simp
  have "1 + 99 = MAX_ARGS" by (simp add: MAX_ARGS_def)
  then have "command_file_loop 1 (concat (replicate 99 (''--a'' @ [NL])) @ [NL])
      = Inr (replicate 99 (Some ''--a''))"
    by (intro command_file_loop_lines) (simp_all add: MAX_ARG_LENGTH_def)
  then obtain b where
    "get_args ?boot (Some (concat (replicate 99 (''--a'' @ [NL])) @ [NL])) [Some ''/sbin/recovery'']
       = Inr (Some ''/sbin/recovery'' # replicate 99 (Some ''--a''), b)"
    using get_args_command_file[OF h, of "concat (replicate 99 (''--a'' @ [NL])) @ [NL]" _
        "replicate 99 (Some ''--a'')"] f
    by auto
  then have c1: "map_sum id fst
     (get_args ?boot (Some (concat (replicate 99 (''--a'' @ [NL])) @ [NL])) [Some ''/sbin/recovery''])
     = Inr (Some ''/sbin/recovery'' # replicate 99 (Some ''--a''))"
    by simp
  obtain b' where
    "get_args ?boot (Some [NL]) [Some ''/sbin/recovery'', Some ''--wipe_data'']
       = Inr ([Some ''/sbin/recovery'', Some ''--wipe_data''], b')"
    using get_args_live_total[of "[Some ''/sbin/recovery'', Some ''--wipe_data'']" ?boot "Some [NL]"]
    by auto
  then have c2: "map_sum id fst
     (get_args ?boot (Some [NL]) [Some ''/sbin/recovery'', Some ''--wipe_data''])
     = Inr [Some ''/sbin/recovery'', Some ''--wipe_data'']"
    by simp
  show ?thesis using c1 c2 by blast
qed


section \<open>The menu loop\<close>












section \<open>Cloning the backup partition\<close>

text \<open>
  Claim C7. In every run of \<open>clone_data_if_exist\<close> that gets as far as the partition
  table (the read of /proc/mtd has delivered its bytes) and does not find "databk"
  there, the result is the error -1 and the block devices are as they were: \<open>simg2img\<close>,
  whatever it would do, is not invoked.
\<close>

theorem clone_data_missing_backup:
  assumes "proc_mtd env \<noteq> None"
    and "mtd_find_partition_by_name env DATABK_PARTITION_NAME = None"
  shows "clone_data_if_exist env w = Inr (- 1, w) \<and>
         clone_data_if_exist (env\<lparr>simg2img := s\<rparr>) w = Inr (- 1, w)"
  using assms by (auto simp: clone_data_if_exist_def Let_def)

theorem clone_data_missing_backup_witness:
  "clone_data_if_exist
     \<lparr>proc_mtd = Some ''dev: size erasesize name'', mtd_scan_partitions = 2,
      mtd_find_partition_by_name =
        (\<lambda>n. if n = ''userdata'' then Some \<lparr>device_index = 5, size_mtd = 0x40000000, erase_size = 0x4000, name = ''userdata''\<rparr>
             else None),
      simg2img = (\<lambda>src dst w. (0, (src, dst) # w))\<rparr> []
     = Inr (- 1, [])"
  using clone_data_missing_backup[of
     "\<lparr>proc_mtd = Some ''dev: size erasesize name'', mtd_scan_partitions = 2,
      mtd_find_partition_by_name =
        (\<lambda>n. if n = ''userdata'' then Some \<lparr>device_index = 5, size_mtd = 0x40000000, erase_size = 0x4000, name = ''userdata''\<rparr>
             else None),
      simg2img = (\<lambda>src dst w. (0, (src, dst) # w))\<rparr>" "[]"]
  by (simp add: DATABK_PARTITION_NAME_def)

lemma clone_data_present:
  "clone_data_if_exist
     \<lparr>proc_mtd = Some ''dev: size erasesize name'', mtd_scan_partitions = 2,
      mtd_find_partition_by_name =
        (\<lambda>n. if n = ''userdata'' then Some \<lparr>device_index = 5, size_mtd = 0x40000000, erase_size = 0x4000, name = ''userdata''\<rparr>
             else if n = ''databk'' then Some \<lparr>device_index = 12, size_mtd = 0x10000000, erase_size = 0x4000, name = ''databk''\<rparr>
             else None),
      simg2img = (\<lambda>src dst w. (0, (src, dst) # w))\<rparr> []
     = Inr (0, [(''/dev/block/mtdblock12'', ''/dev/block/mtdblock5'')])"
  by (simp add: clone_data_if_exist_def start_to_clone_def DATABK_PARTITION_NAME_def
      DATA_PARTITION_NAME_def printf_d_def Let_def)

section \<open>The ext4 superblock reader\<close>

lemma read_ext_bad_superblock:
  assumes "dev_read env 1024 (sb_size env) = Some bytes"
    and "length (take (sb_size env) bytes) = sb_size env"
    and "s_magic (sb_of_bytes env (take (sb_size env) bytes)) \<noteq> EXT4_SUPER_MAGIC \<or>
         s_state (sb_of_bytes env (take (sb_size env) bytes)) AND EXT4_VALID_FS \<noteq> EXT4_VALID_FS"
  shows "read_ext env = (- 1, [(1024, sb_size env)])"
  using assms by (auto simp: read_ext_def test_sb_def lseek64_def Let_def)

text \<open>
  Claim C5 at a filesystem of 4 GiB: the superblock is valid, both reads succeed, and
  \<open>read_ext\<close> returns 0, not the length 4294967296 that \<open>ext4_parse_sb\<close> reports.
\<close>

theorem read_ext_truncates_length:
  "read_ext
     \<lparr>dev_read = (\<lambda>off n. Some (replicate n NUL)), sb_size = 1024,
      sb_of_bytes = (\<lambda>bytes. \<lparr>s_magic = 0xEF53, s_state = 1\<rparr>),
      ext4_parse_sb = (\<lambda>sb. (\<lparr>len = 0x100000000, block_size = 4096\<rparr>,
                              \<lparr>first_data_block = 0, bg_desc_blocks = 1\<rparr>))\<rparr>
     = (0, [(1024, 1024), (4096, 4096)])"
  by (simp add: read_ext_def test_sb_def lseek64_def EXT4_SUPER_MAGIC_def EXT4_VALID_FS_def Let_def)


lemma read_ext_result:
  "fst (read_ext env) = - 1 \<or>
   (\<exists>bytes. dev_read env 1024 (sb_size env) = Some bytes \<and>
      fst (read_ext env) =
        sint (ucast (len (fst (ext4_parse_sb env (sb_of_bytes env (take (sb_size env) bytes))))) :: 32 word))"
  by (auto simp: read_ext_def Let_def split: option.splits if_splits prod.splits)

lemma small_length_kept:
  fixes l :: "64 word"
  assumes "uint l < 2 ^ 31"
  shows "sint (ucast l :: 32 word) = uint l"
proof -
  have "- (2 ^ 31) \<le> (0::int)" by simp
  also have "0 \<le> uint l" by simp
  finally have lo: "- (2 ^ 31) \<le> uint l" .
  have "sint (ucast l :: 32 word) = signed_take_bit 31 (uint l)"
    by (simp add: signed_ucast_eq)
  also have "\<dots> = uint l"
    using lo assms by (rule signed_take_bit_int_eq_self)
  finally show ?thesis .
qed

lemma size_t_minus_one: "unat (- 1 :: 'a::len word) = 2 ^ LENGTH('a) - 1"
  by (simp add: unsigned_minus_1_eq_mask mask_eq_exp_minus_1)


lemma read_ext_by_length:
  "fst (read_ext env) =
     (case read_ext_length env of None \<Rightarrow> - 1 | Some l \<Rightarrow> sint (ucast l :: 32 word))"
proof (cases "dev_read env 1024 (sb_size env)")
  case None
  then show ?thesis by (simp add: read_ext_def read_ext_length_def)
next
  case (Some bytes)
  obtain info aux_info
    where p: "ext4_parse_sb env (sb_of_bytes env (take (sb_size env) bytes)) = (info, aux_info)"
    by (cases "ext4_parse_sb env (sb_of_bytes env (take (sb_size env) bytes))") auto
  show ?thesis
  proof (cases "dev_read env (unat (block_size info * (first_data_block aux_info + 1)))
                  (unat (block_size info * bg_desc_blocks aux_info))")
    case None
    show ?thesis using Some p None
      by (simp add: read_ext_def read_ext_length_def Let_def)
  next
    case d: (Some d)
    show ?thesis using Some p d
      by (simp add: read_ext_def read_ext_length_def Let_def)
  qed
qed

lemma even_uint_word: "even (uint l) = even (l :: 64 word)"
proof -
  have "bit (uint l) 0 = bit l 0" by (simp only: bit_uint_iff) simp
  then show ?thesis by (simp only: bit_0) simp
qed

lemma even_ucast_word: "even (ucast l :: 32 word) = even (l :: 64 word)"
proof -
  have "bit (ucast l :: 32 word) 0 = bit l 0" by (simp only: bit_ucast_iff) simp
  then show ?thesis by (simp only: bit_0) simp
qed

lemma even_sint_word: "even (sint w) = even (w :: 32 word)"
proof -
  have "bit (sint w) 0 = bit w 0" by (simp only: bit_sint_iff) simp
  then show ?thesis by (simp only: bit_0) simp
qed

lemma even_word_of_int: "even (word_of_int x :: 's::len word) = even x"
proof -
  have "bit (word_of_int x :: 's word) 0 = bit x 0" by (simp only: bit_word_of_int_iff) simp
  then show ?thesis by (simp only: bit_0) simp
qed

lemma even_not_max_word:
  assumes "even (w :: 's::len word)" shows "w \<noteq> - 1"
proof
  assume "w = - 1"
  then have "odd w" by simp
  then show False using assms by simp
qed

lemma even_length_not_max:
  fixes l :: "64 word"
  assumes "even (uint l)"
  shows "(word_of_int (sint (ucast l :: 32 word)) :: 's::len word) \<noteq> - 1"
proof -
  have "even (word_of_int (sint (ucast l :: 32 word)) :: 's word)"
    using assms
    by (simp only: even_word_of_int even_sint_word even_ucast_word even_uint_word)
  then show ?thesis by (rule even_not_max_word)
qed

lemma get_fs_total_size_converted:
  "(get_fs_total_size (Some env) :: 's::len word) = word_of_int (fst (read_ext env))"
  by (simp add: get_fs_total_size_def Let_def)

lemma bad_magic_device_left: "read_ext_length bad_magic_device = None"
  by (simp add: read_ext_length_def bad_magic_device_def test_sb_def lseek64_def
      EXT4_SUPER_MAGIC_def Let_def)

lemma one_gigabyte_device_reached: "read_ext_length one_gigabyte_device = Some 0x40000000"
  by (simp add: read_ext_length_def one_gigabyte_device_def test_sb_def lseek64_def
      EXT4_SUPER_MAGIC_def EXT4_VALID_FS_def Let_def)

text \<open>
  Claim C9 (as amended). \<open>get_fs_total_size\<close> has no negative result. Its result is
  the unsigned \<open>size_t\<close>: the -1 returned when \<open>open\<close> fails, and the -1 with which
  \<open>read_ext\<close> is left at each of its failures, become the largest value of \<open>size_t\<close>;
  the test \<open>size < 0\<close> never holds, so the result is always the converted result of
  \<open>read_ext\<close>. A failure is therefore reported as the largest value of \<open>size_t\<close>, which
  is odd. When \<open>read_ext\<close> reaches \<open>return info.len\<close> the result is the converted low
  32 bits of the length, and for an even length (every whole number of blocks is one) it
  is not that value: the caller can tell the failure from the size of a filesystem.
\<close>

theorem get_fs_total_size_wraps:
  "(get_fs_total_size None :: 's::len word) = - 1 \<and>
   (fst (read_ext env) = - 1 \<longrightarrow> (get_fs_total_size (Some env) :: 's word) = - 1) \<and>
   (get_fs_total_size (Some env) :: 's word) = word_of_int (fst (read_ext env)) \<and>
   unat (- 1 :: 's word) = 2 ^ LENGTH('s) - 1 \<and>
   \<not> (get_fs_total_size fd :: 's word) < 0 \<and>
   odd (get_fs_total_size None :: 's word) \<and>
   (read_ext_length env = None \<longrightarrow> (get_fs_total_size (Some env) :: 's word) = - 1) \<and>
   (read_ext_length env = Some l \<longrightarrow>
      (get_fs_total_size (Some env) :: 's word) = word_of_int (sint (ucast l :: 32 word)) \<and>
      (even (uint l) \<longrightarrow> (get_fs_total_size (Some env) :: 's word) \<noteq> - 1))"
proof -
  have none: "(get_fs_total_size None :: 's word) = - 1"
    by (simp add: get_fs_total_size_def)
  have left: "(get_fs_total_size (Some env) :: 's word) = - 1" if "read_ext_length env = None"
    using that by (simp add: get_fs_total_size_converted read_ext_by_length)
  have reached: "(get_fs_total_size (Some env) :: 's word) = word_of_int (sint (ucast l :: 32 word))"
    if "read_ext_length env = Some l"
    using that by (simp add: get_fs_total_size_converted read_ext_by_length)
  have told: "(get_fs_total_size (Some env) :: 's word) \<noteq> - 1"
    if "read_ext_length env = Some l" and "even (uint l)"
    unfolding reached[OF that(1)] using that(2) by (rule even_length_not_max)
  have conv: "fst (read_ext env) = - 1 \<longrightarrow> (get_fs_total_size (Some env) :: 's word) = - 1"
    by (simp add: get_fs_total_size_converted)
  have neg: "\<not> (get_fs_total_size fd :: 's word) < 0" by simp
  have odd: "odd (get_fs_total_size None :: 's word)" unfolding none by simp
  show ?thesis
    using none left reached told conv neg odd get_fs_total_size_converted[of env] size_t_minus_one
    by (intro conjI impI) blast+
qed

theorem get_fs_total_size_wraps_witness:
  "fst (read_ext bad_magic_device) = - 1 \<and>
   (get_fs_total_size (Some bad_magic_device) :: 32 word) = 0xFFFFFFFF \<and>
   unat (get_fs_total_size None :: 32 word) = 4294967295 \<and>
   (get_fs_total_size (Some one_gigabyte_device) :: 32 word) = 0x40000000 \<and>
   (get_fs_total_size (Some one_gigabyte_device) :: 32 word) \<noteq> - 1"
proof -
  have r: "fst (read_ext bad_magic_device) = - 1"
    by (simp add: read_ext_by_length bad_magic_device_left)
  have even: "even (uint (0x40000000 :: 64 word))" by simp
  have "(get_fs_total_size (Some bad_magic_device) :: 32 word) = - 1"
       "(get_fs_total_size None :: 32 word) = - 1"
       "unat (- 1 :: 32 word) = 2 ^ LENGTH(32) - 1"
    using r get_fs_total_size_wraps[where 's = 32 and env = bad_magic_device] by blast+
  moreover have
       "(get_fs_total_size (Some one_gigabyte_device) :: 32 word)
          = word_of_int (sint (ucast (0x40000000 :: 64 word) :: 32 word))"
       "(get_fs_total_size (Some one_gigabyte_device) :: 32 word) \<noteq> - 1"
    using one_gigabyte_device_reached even
      get_fs_total_size_wraps[where 's = 32 and env = one_gigabyte_device and l = "0x40000000"]
    by blast+
  ultimately show ?thesis using r by simp
qed

theorem get_fs_total_size_wraps_counterexample:
  "read_ext_length bad_magic_device = None \<and>
   unat (get_fs_total_size (Some bad_magic_device) :: 32 word) = 4294967295 \<and>
   odd (unat (get_fs_total_size (Some bad_magic_device) :: 32 word)) \<and>
   read_ext_length one_gigabyte_device = Some 0x40000000 \<and>
   unat (get_fs_total_size (Some one_gigabyte_device) :: 32 word) = 1073741824"
proof -
  have "(get_fs_total_size (Some bad_magic_device) :: 32 word) = - 1"
    by (simp add: get_fs_total_size_converted read_ext_by_length bad_magic_device_left)
  moreover have "(get_fs_total_size (Some one_gigabyte_device) :: 32 word) = 0x40000000"
    by (simp add: get_fs_total_size_converted read_ext_by_length one_gigabyte_device_reached)
  ultimately show ?thesis
    by (simp add: bad_magic_device_left one_gigabyte_device_reached size_t_minus_one)
qed


section \<open>Properties of the file store and of finish_recovery\<close>

lemmas path_defs = COMMAND_FILE_def FLAG_FILE_def INTENT_FILE_def LOG_FILE_def LAST_LOG_FILE_def
  LAST_INSTALL_FILE_def LOCALE_FILE_def CACHE_ROOT_def TEMPORARY_LOG_FILE_def TEMPORARY_INSTALL_FILE_def

lemma copy_lines_Nil: "copy_lines [] = []"
  by (subst copy_lines.simps) (simp add: fgets_def)

lemma cache_update_same: "cache s = c \<Longrightarrow> s\<lparr>cache := c\<rparr> = s"
  by (cases s) simp

lemma fopen_path_w:
  assumes "on_cache p" "cache s \<noteq> Unmountable"
  shows "fopen_path p (CHR ''w'') s =
           (True, s\<lparr>files := (files s)(p \<mapsto> written [] (files s p) (new_mode s) (new_owner s)), cache := Mounted\<rparr>)"
  using assms
  by (cases "cache s"; cases "files s p")
     (simp_all add: fopen_path_def ensure_path_mounted_def fopen_def written_def)

lemma fopen_path_a:
  assumes "on_cache p" "cache s \<noteq> Unmountable"
  shows "fopen_path p (CHR ''a'') s =
           (True, s\<lparr>files := (files s)(p \<mapsto> appended [] (files s p) (new_mode s) (new_owner s)), cache := Mounted\<rparr>)"
  using assms
  by (cases "cache s"; cases "files s p")
     (simp_all add: fopen_path_def ensure_path_mounted_def fopen_def appended_def map_upd_triv
        cache_update_same)

lemma fopen_path_unmountable:
  assumes "on_cache p" "cache s = Unmountable"
  shows "fopen_path p m s = (False, s)"
  using assms by (simp add: fopen_path_def ensure_path_mounted_def)

lemma written_written: "(written [] fo m ow)\<lparr>f_data := f_data (written [] fo m ow) @ d\<rparr> = written d fo m ow"
  by (cases fo) (simp_all add: written_def)

lemma appended_appended: "(appended [] fo m ow)\<lparr>f_data := f_data (appended [] fo m ow) @ d\<rparr> = appended d fo m ow"
  by (cases fo) (simp_all add: appended_def)

lemma finish_intent_mountable:
  assumes "cache s \<noteq> Unmountable"
  shows "finish_intent si s =
     (case si of
        None \<Rightarrow> s
      | Some i \<Rightarrow> s\<lparr>files := (files s)(INTENT_FILE \<mapsto> written i (files s INTENT_FILE) (new_mode s) (new_owner s)), cache := Mounted\<rparr>)"
proof (cases si)
  case None
  then show ?thesis by (simp add: finish_intent_def)
next
  case (Some i)
  have "on_cache INTENT_FILE" by (simp add: on_cache_def INTENT_FILE_def)
  then show ?thesis using Some assms
    by (simp add: finish_intent_def fopen_path_w fwrite_def written_written)
qed

lemma finish_locale_mountable:
  assumes "cache s \<noteq> Unmountable"
  shows "finish_locale s =
     Inr (case locale' s of
        None \<Rightarrow> s
      | Some l \<Rightarrow> s\<lparr>files := (files s)(LOCALE_FILE \<mapsto> written l (files s LOCALE_FILE) (new_mode s) (new_owner s)), cache := Mounted\<rparr>)"
proof (cases "locale' s")
  case None
  then show ?thesis by (simp add: finish_locale_def)
next
  case (Some l)
  have "on_cache LOCALE_FILE" by (simp add: on_cache_def LOCALE_FILE_def)
  then show ?thesis using Some assms
    by (simp add: finish_locale_def fopen_path_w fwrite_def written_written)
qed

lemma copy_log_file_w:
  assumes "on_cache dst" "\<not> on_cache src" "cache s \<noteq> Unmountable"
  shows "copy_log_file src dst False s =
     s\<lparr>files := (files s)(dst \<mapsto> written (copied (files s src)) (files s dst) (new_mode s) (new_owner s)), cache := Mounted\<rparr>"
proof -
  have ne: "src \<noteq> dst" using assms(1,2) by auto
  show ?thesis
  proof (cases "files s src")
    case None
    then show ?thesis using assms ne
      by (simp add: copy_log_file_def fopen_path_w lookup_def copied_def)
  next
    case (Some t)
    then show ?thesis using assms ne
      by (simp add: copy_log_file_def fopen_path_w lookup_def copied_def fwrite_def written_written)
  qed
qed

lemma copy_log_file_a:
  assumes "on_cache dst" "\<not> on_cache src" "cache s \<noteq> Unmountable"
  shows "copy_log_file src dst True s =
     s\<lparr>files := (files s)(dst \<mapsto>
            appended (case files s src of None \<Rightarrow> [] | Some t \<Rightarrow> copy_lines (drop (tmplog_offset s) (f_data t)))
              (files s dst) (new_mode s) (new_owner s)),
        cache := Mounted,
        tmplog_offset := (case files s src of None \<Rightarrow> tmplog_offset s
                          | Some t \<Rightarrow> max (tmplog_offset s) (length (f_data t)))\<rparr>"
proof -
  have ne: "src \<noteq> dst" using assms(1,2) by auto
  show ?thesis
  proof (cases "files s src")
    case None
    then show ?thesis using assms ne
      by (simp add: copy_log_file_def fopen_path_a lookup_def)
  next
    case (Some t)
    then show ?thesis using assms ne
      by (simp add: copy_log_file_def fopen_path_a lookup_def fwrite_def appended_appended Let_def)
  qed
qed

lemma on_cache_paths:
  "on_cache COMMAND_FILE" "on_cache FLAG_FILE" "on_cache INTENT_FILE" "on_cache LOG_FILE"
  "on_cache LAST_LOG_FILE" "on_cache LAST_INSTALL_FILE" "on_cache LOCALE_FILE" "on_cache CACHE_ROOT"
  "\<not> on_cache TEMPORARY_LOG_FILE" "\<not> on_cache TEMPORARY_INSTALL_FILE"
  by (simp_all add: on_cache_def path_defs)

lemma chmod_mounted:
  "cache s = Mounted \<Longrightarrow> files s p = Some f \<Longrightarrow>
   chmod p m s = s\<lparr>files := (files s)(p \<mapsto> f\<lparr>f_mode := m\<rparr>)\<rparr>"
  by (simp add: chmod_def lookup_def)

lemma chown_mounted:
  "cache s = Mounted \<Longrightarrow> files s p = Some f \<Longrightarrow>
   chown p u g s = s\<lparr>files := (files s)(p \<mapsto> f\<lparr>f_owner := (u, g)\<rparr>)\<rparr>"
  by (simp add: chown_def lookup_def)

lemma finish_logs_mountable:
  assumes "cache s \<noteq> Unmountable"
  shows "finish_logs s =
     s\<lparr>files := (files s)
          (LOG_FILE \<mapsto>
             (appended (case files s TEMPORARY_LOG_FILE of None \<Rightarrow> []
                        | Some t \<Rightarrow> copy_lines (drop (tmplog_offset s) (f_data t)))
                (files s LOG_FILE) (new_mode s) (new_owner s))\<lparr>f_mode := 6 * 64, f_owner := (1000, 1000)\<rparr>,
           LAST_LOG_FILE \<mapsto>
             (written (copied (files s TEMPORARY_LOG_FILE)) (files s LAST_LOG_FILE)
                (new_mode s) (new_owner s))\<lparr>f_mode := 6 * 64 + 4 * 8\<rparr>,
           LAST_INSTALL_FILE \<mapsto>
             (written (copied (files s TEMPORARY_INSTALL_FILE)) (files s LAST_INSTALL_FILE)
                (new_mode s) (new_owner s))\<lparr>f_mode := 6 * 64 + 4 * 8 + 4\<rparr>),
        cache := Mounted,
        tmplog_offset := (case files s TEMPORARY_LOG_FILE of None \<Rightarrow> tmplog_offset s
                          | Some t \<Rightarrow> max (tmplog_offset s) (length (f_data t)))\<rparr>"
proof -
  let ?s1 = "copy_log_file TEMPORARY_LOG_FILE LOG_FILE True s"
  let ?s2 = "copy_log_file TEMPORARY_LOG_FILE LAST_LOG_FILE False ?s1"
  let ?s3 = "copy_log_file TEMPORARY_INSTALL_FILE LAST_INSTALL_FILE False ?s2"
  have ne: "LOG_FILE \<noteq> LAST_LOG_FILE" "LOG_FILE \<noteq> LAST_INSTALL_FILE" "LAST_LOG_FILE \<noteq> LAST_INSTALL_FILE"
      "TEMPORARY_LOG_FILE \<noteq> LOG_FILE" "TEMPORARY_INSTALL_FILE \<noteq> LOG_FILE"
      "TEMPORARY_INSTALL_FILE \<noteq> LAST_LOG_FILE"  "TEMPORARY_LOG_FILE \<noteq> LAST_LOG_FILE"
    by (simp_all add: path_defs)
  have s3: "?s3 = s\<lparr>files := (files s)
          (LOG_FILE \<mapsto>
             appended (case files s TEMPORARY_LOG_FILE of None \<Rightarrow> []
                        | Some t \<Rightarrow> copy_lines (drop (tmplog_offset s) (f_data t)))
                (files s LOG_FILE) (new_mode s) (new_owner s),
           LAST_LOG_FILE \<mapsto>
             written (copied (files s TEMPORARY_LOG_FILE)) (files s LAST_LOG_FILE)
                (new_mode s) (new_owner s),
           LAST_INSTALL_FILE \<mapsto>
             written (copied (files s TEMPORARY_INSTALL_FILE)) (files s LAST_INSTALL_FILE)
                (new_mode s) (new_owner s)),
        cache := Mounted,
        tmplog_offset := (case files s TEMPORARY_LOG_FILE of None \<Rightarrow> tmplog_offset s
                          | Some t \<Rightarrow> max (tmplog_offset s) (length (f_data t)))\<rparr>"
    using assms ne by (simp add: copy_log_file_a copy_log_file_w on_cache_paths)
  show ?thesis
    unfolding finish_logs_def Let_def s3
    using ne by (simp add: chmod_mounted chown_mounted fun_upd_twist)
qed


lemma finish_flag_mountable:
  assumes "cache s \<noteq> Unmountable" "length (''success$path='' @ updatepath s) < 160"
  shows "finish_flag s =
     Inr (if bAutoUpdateComplete s
          then s\<lparr>files := (files s)(FLAG_FILE \<mapsto>
                     written ((''success$path='' @ updatepath s) @
                              replicate (160 - length (''success$path='' @ updatepath s)) NUL)
                       (files s FLAG_FILE) (new_mode s) (new_owner s)),
                  cache := Mounted, bAutoUpdateComplete := False\<rparr>
          else s)"
  using assms
  by (simp add: finish_flag_def fopen_path_w on_cache_paths fwrite_def written_written Let_def
      del: replicate.simps)

lemma finish_unlink_mountable:
  assumes "cache s \<noteq> Unmountable"
  shows "finish_unlink s = s\<lparr>files := (files s)(COMMAND_FILE := None), cache := Unmounted\<rparr>"
  using assms
  by (cases "cache s")
     (simp_all add: finish_unlink_def ensure_path_mounted_def ensure_path_unmounted_def unlink_def
        on_cache_paths)

lemma finish_intent_unmountable:
  "cache s = Unmountable \<Longrightarrow> finish_intent si s = s"
  by (cases si) (simp_all add: finish_intent_def fopen_path_unmountable on_cache_paths)

lemma finish_locale_unmountable:
  "cache s = Unmountable \<Longrightarrow>
   finish_locale s = (if locale' s = None then Inr s else Inl NullDereference)"
  by (cases "locale' s") (simp_all add: finish_locale_def fopen_path_unmountable on_cache_paths)

lemma copy_log_file_unmountable:
  "cache s = Unmountable \<Longrightarrow> on_cache dst \<Longrightarrow> copy_log_file src dst a s = s"
  by (simp add: copy_log_file_def fopen_path_unmountable)

lemma finish_logs_unmountable:
  "cache s = Unmountable \<Longrightarrow> finish_logs s = s"
  by (simp add: finish_logs_def copy_log_file_unmountable on_cache_paths chmod_def chown_def lookup_def)

lemma finish_flag_unmountable:
  "cache s = Unmountable \<Longrightarrow> finish_flag s = Inr s' \<Longrightarrow> \<not> bAutoUpdateComplete s \<and> s' = s"
  by (auto simp: finish_flag_def fopen_path_unmountable on_cache_paths split: if_splits)

lemma finish_unlink_unmountable:
  "cache s = Unmountable \<Longrightarrow> finish_unlink s = s"
  by (simp add: finish_unlink_def ensure_path_mounted_def ensure_path_unmounted_def on_cache_paths)

lemma memset_zero_idem: "memset_zero (memset_zero b) = memset_zero b"
  by (simp add: memset_zero_def)

lemma finish_flag_length:
  "finish_flag s = Inr s' \<Longrightarrow> bAutoUpdateComplete s \<Longrightarrow> length (''success$path='' @ updatepath s) < 160"
  by (auto simp: finish_flag_def Let_def split: if_splits prod.splits)


lemma f_data_update_same: "f_data f = d \<Longrightarrow> f\<lparr>f_data := d\<rparr> = f"
  by (cases f) simp

lemma written_same: "f_data f = d \<Longrightarrow> written d (Some f) m ow = f"
  by (simp add: written_def f_data_update_same)

lemma bcb_update_same: "bcb s = b \<Longrightarrow> s\<lparr>bcb := b\<rparr> = s"
  by (cases s) simp

lemma tmplog_offset_update_same: "tmplog_offset s = n \<Longrightarrow> s\<lparr>tmplog_offset := n\<rparr> = s"
  by (cases s) simp

lemma finished_Mounted:
  "finished si x \<Longrightarrow> cache x \<noteq> Unmountable \<Longrightarrow> finished si (x\<lparr>cache := Mounted\<rparr>)"
  by (simp add: finished_def)

lemma finished_intent:
  assumes "finished si x" "cache x \<noteq> Unmountable"
  shows "finish_intent si x = (if si = None then x else x\<lparr>cache := Mounted\<rparr>)"
proof (cases si)
  case None
  then show ?thesis by (simp add: finish_intent_def)
next
  case (Some i)
  then obtain f where f: "files x INTENT_FILE = Some f" "f_data f = i"
    using assms by (auto simp: finished_def)
  show ?thesis using Some assms(2) f
    by (simp add: finish_intent_mountable written_same map_upd_triv)
qed

lemma finished_locale:
  assumes "finished si x" "cache x \<noteq> Unmountable"
  shows "finish_locale x = Inr (if locale' x = None then x else x\<lparr>cache := Mounted\<rparr>)"
proof (cases "locale' x")
  case None
  then show ?thesis by (simp add: finish_locale_def)
next
  case (Some l)
  then obtain f where f: "files x LOCALE_FILE = Some f" "f_data f = l"
    using assms by (auto simp: finished_def)
  show ?thesis using Some assms(2) f
    by (simp add: finish_locale_mountable written_same map_upd_triv)
qed

lemma finished_logs:
  assumes "finished si x" "cache x \<noteq> Unmountable"
  shows "finish_logs x = x\<lparr>cache := Mounted\<rparr>"
proof -
  obtain f1 where f1: "files x LOG_FILE = Some f1" "f_mode f1 = 6 * 64" "f_owner f1 = (1000, 1000)"
    using assms by (auto simp: finished_def)
  obtain f2 where f2: "files x LAST_LOG_FILE = Some f2" "f_mode f2 = 6 * 64 + 4 * 8"
      "f_data f2 = copied (files x TEMPORARY_LOG_FILE)"
    using assms by (auto simp: finished_def)
  obtain f3 where f3: "files x LAST_INSTALL_FILE = Some f3" "f_mode f3 = 6 * 64 + 4 * 8 + 4"
      "f_data f3 = copied (files x TEMPORARY_INSTALL_FILE)"
    using assms by (auto simp: finished_def)
  have off: "\<forall>t. files x TEMPORARY_LOG_FILE = Some t \<longrightarrow> length (f_data t) \<le> tmplog_offset x"
    using assms by (auto simp: finished_def)
  have d: "(case files x TEMPORARY_LOG_FILE of None \<Rightarrow> []
            | Some t \<Rightarrow> copy_lines (drop (tmplog_offset x) (f_data t))) = []"
    using off by (auto simp: copy_lines_Nil split: option.splits)
  have o: "(case files x TEMPORARY_LOG_FILE of None \<Rightarrow> tmplog_offset x
            | Some t \<Rightarrow> max (tmplog_offset x) (length (f_data t))) = tmplog_offset x"
    using off by (auto split: option.splits)
  have a1: "(appended [] (Some f1) (new_mode x) (new_owner x))\<lparr>f_mode := 6 * 64, f_owner := (1000, 1000)\<rparr> = f1"
    using f1(2,3) by (cases f1) (simp add: appended_def)
  have a2: "(written (copied (files x TEMPORARY_LOG_FILE)) (Some f2) (new_mode x) (new_owner x))\<lparr>f_mode := 6 * 64 + 4 * 8\<rparr> = f2"
    using f2(2,3) by (cases f2) (simp add: written_def)
  have a3: "(written (copied (files x TEMPORARY_INSTALL_FILE)) (Some f3) (new_mode x) (new_owner x))\<lparr>f_mode := 6 * 64 + 4 * 8 + 4\<rparr> = f3"
    using f3(2,3) by (cases f3) (simp add: written_def)
  have "(files x)(LOG_FILE \<mapsto> f1, LAST_LOG_FILE \<mapsto> f2, LAST_INSTALL_FILE \<mapsto> f3) = files x"
    using f1(1) f2(1) f3(1) by (auto simp: fun_eq_iff)
  then show ?thesis
    unfolding finish_logs_mountable[OF assms(2)] d o f1(1) f2(1) f3(1) a1 a2 a3
    by simp
qed

lemma finished_bcb:
  assumes "finished si x"
  shows "finish_bcb x = x"
  using assms by (auto simp: finish_bcb_def finished_def bcb_update_same)

lemma finished_flag:
  assumes "finished si x"
  shows "finish_flag x = Inr x"
  using assms by (simp add: finish_flag_def finished_def)

lemma finished_unlink:
  assumes "finished si x" "cache x \<noteq> Unmountable"
  shows "finish_unlink x = x\<lparr>cache := Unmounted\<rparr>"
proof -
  have "files x COMMAND_FILE = None" using assms by (simp add: finished_def)
  then have "(files x)(COMMAND_FILE := None) = files x" by (auto simp: fun_eq_iff)
  then show ?thesis using assms(2) by (simp add: finish_unlink_mountable)
qed

lemma finished_fixpoint:
  assumes "finished si t"
  shows "finish_recovery si t = Inr (if cache t = Mounted then t\<lparr>cache := Unmounted\<rparr> else t)"
proof (cases "cache t = Unmountable")
  case True
  have "locale' t = None" using assms True by (simp add: finished_def)
  then show ?thesis
    using True assms
    by (simp add: finish_recovery_def finish_intent_unmountable finish_locale_unmountable
        finish_logs_unmountable finished_bcb finished_flag finish_unlink_unmountable)
next
  case False
  let ?m = "t\<lparr>cache := Mounted\<rparr>"
  have fm: "finished si ?m" "cache ?m \<noteq> Unmountable"
    using finished_Mounted[OF assms False] by simp_all
  have mm: "?m\<lparr>cache := Mounted\<rparr> = ?m" by simp
  have i: "finish_intent si t = t \<or> finish_intent si t = ?m"
    using finished_intent[OF assms False] by auto
  have l: "finish_locale x = Inr x \<or> finish_locale x = Inr ?m" if "x = t \<or> x = ?m" for x
    using that finished_locale[OF assms False] finished_locale[OF fm] mm by auto
  have g: "finish_logs x = ?m" if "x = t \<or> x = ?m" for x
    using that finished_logs[OF assms False] finished_logs[OF fm] mm by auto
  have r: "finish_unlink ?m = t\<lparr>cache := Unmounted\<rparr>"
    using finished_unlink[OF fm] by simp
  obtain x1 where x1: "finish_intent si t = x1" "x1 = t \<or> x1 = ?m" using i by auto
  obtain x2 where x2: "finish_locale x1 = Inr x2" "x2 = t \<or> x2 = ?m"
    using l[OF x1(2)] x1(2) by auto
  have "finish_recovery si t = Inr (t\<lparr>cache := Unmounted\<rparr>)"
    unfolding finish_recovery_def x1(1)
    using x2 g[OF x2(2)] finished_bcb[OF fm(1)] finished_flag[OF fm(1)] r by simp
  moreover have "t\<lparr>cache := Unmounted\<rparr> = t" if "cache t \<noteq> Mounted"
    using that False by (cases "cache t") (simp_all add: cache_update_same)
  ultimately show ?thesis by auto
qed


lemma finish_recovery_unmountable:
  assumes "finish_recovery si s = Inr s'" "cache s = Unmountable"
  shows "s' = finish_bcb s \<and> locale' s = None \<and> \<not> bAutoUpdateComplete s"
proof -
  have c: "cache (finish_bcb s) = Unmountable" using assms(2) by (simp add: finish_bcb_def)
  have l: "locale' s = None"
    using assms by (auto simp: finish_recovery_def finish_intent_unmountable finish_locale_unmountable
        split: if_splits sum.splits)
  then obtain s2 where s2: "finish_flag (finish_bcb s) = Inr s2" "s' = finish_unlink s2"
    using assms by (auto simp: finish_recovery_def finish_intent_unmountable finish_locale_unmountable
        finish_logs_unmountable split: sum.splits)
  have "\<not> bAutoUpdateComplete (finish_bcb s)" "s2 = finish_bcb s"
    using finish_flag_unmountable[OF c s2(1)] by simp_all
  then show ?thesis using s2(2) c l
    by (simp add: finish_unlink_unmountable finish_bcb_def split: if_splits)
qed

lemma intent_frame:
  assumes "cache s \<noteq> Unmountable"
  shows "cache (finish_intent si s) \<noteq> Unmountable"
    and "\<forall>i. si = Some i \<longrightarrow> (\<exists>f. files (finish_intent si s) INTENT_FILE = Some f \<and> f_data f = i)"
    and "p \<noteq> INTENT_FILE \<Longrightarrow> files (finish_intent si s) p = files s p"
    and "tmplog_offset (finish_intent si s) = tmplog_offset s"
    and "locale' (finish_intent si s) = locale' s"
    and "bClearbootmessage (finish_intent si s) = bClearbootmessage s"
    and "bAutoUpdateComplete (finish_intent si s) = bAutoUpdateComplete s"
    and "bcb (finish_intent si s) = bcb s"
  using assms
  by (auto simp: finish_intent_mountable written_def split: option.splits)

lemma locale_frame:
  assumes "cache s \<noteq> Unmountable"
  shows "\<exists>s2. finish_locale s = Inr s2 \<and> cache s2 \<noteq> Unmountable \<and>
     (\<forall>l. locale' s2 = Some l \<longrightarrow> (\<exists>f. files s2 LOCALE_FILE = Some f \<and> f_data f = l)) \<and>
     (\<forall>p. p \<noteq> LOCALE_FILE \<longrightarrow> files s2 p = files s p) \<and>
     tmplog_offset s2 = tmplog_offset s \<and> locale' s2 = locale' s \<and>
     bClearbootmessage s2 = bClearbootmessage s \<and>
     bAutoUpdateComplete s2 = bAutoUpdateComplete s \<and> bcb s2 = bcb s"
  using assms
  by (auto simp: finish_locale_mountable written_def split: option.splits)

lemma logs_frame:
  assumes "cache s \<noteq> Unmountable"
  shows "cache (finish_logs s) = Mounted"
    and "\<exists>f. files (finish_logs s) LOG_FILE = Some f \<and> f_mode f = 6 * 64 \<and> f_owner f = (1000, 1000) \<and>
              f_data f = (case files s LOG_FILE of None \<Rightarrow> [] | Some g \<Rightarrow> f_data g) @
                         (case files s TEMPORARY_LOG_FILE of None \<Rightarrow> []
                          | Some t \<Rightarrow> copy_lines (drop (tmplog_offset s) (f_data t)))"
    and "\<forall>x. files s TEMPORARY_LOG_FILE = Some x \<longrightarrow> length (f_data x) \<le> tmplog_offset (finish_logs s)"
    and "\<exists>f. files (finish_logs s) LAST_LOG_FILE = Some f \<and> f_mode f = 6 * 64 + 4 * 8 \<and>
              f_data f = copied (files s TEMPORARY_LOG_FILE)"
    and "\<exists>f. files (finish_logs s) LAST_INSTALL_FILE = Some f \<and> f_mode f = 6 * 64 + 4 * 8 + 4 \<and>
              f_data f = copied (files s TEMPORARY_INSTALL_FILE)"
    and "p \<noteq> LOG_FILE \<Longrightarrow> p \<noteq> LAST_LOG_FILE \<Longrightarrow> p \<noteq> LAST_INSTALL_FILE \<Longrightarrow>
         files (finish_logs s) p = files s p"
    and "locale' (finish_logs s) = locale' s"
    and "bClearbootmessage (finish_logs s) = bClearbootmessage s"
    and "bAutoUpdateComplete (finish_logs s) = bAutoUpdateComplete s"
    and "bcb (finish_logs s) = bcb s"
  using assms
  by (auto simp: finish_logs_mountable path_defs written_def appended_def split: option.splits)

lemma bcb_frame:
  shows "cache (finish_bcb s) = cache s" and "files (finish_bcb s) = files s"
    and "tmplog_offset (finish_bcb s) = tmplog_offset s"
    and "locale' (finish_bcb s) = locale' s"
    and "bClearbootmessage (finish_bcb s) = bClearbootmessage s"
    and "bAutoUpdateComplete (finish_bcb s) = bAutoUpdateComplete s"
    and "bcb (finish_bcb s) = (if bClearbootmessage s then bcb s else memset_zero (bcb s))"
  by (simp_all add: finish_bcb_def)

lemma flag_frame:
  assumes "cache s \<noteq> Unmountable" "finish_flag s = Inr s4"
  shows "cache s4 \<noteq> Unmountable" and "\<not> bAutoUpdateComplete s4"
    and "p \<noteq> FLAG_FILE \<Longrightarrow> files s4 p = files s p"
    and "tmplog_offset s4 = tmplog_offset s"
    and "locale' s4 = locale' s"
    and "bClearbootmessage s4 = bClearbootmessage s"
    and "bcb s4 = bcb s"
proof -
  have "s4 = (if bAutoUpdateComplete s
          then s\<lparr>files := (files s)(FLAG_FILE \<mapsto>
                     written ((''success$path='' @ updatepath s) @
                              replicate (160 - length (''success$path='' @ updatepath s)) NUL)
                       (files s FLAG_FILE) (new_mode s) (new_owner s)),
                  cache := Mounted, bAutoUpdateComplete := False\<rparr>
          else s)"
  proof (cases "bAutoUpdateComplete s")
    case True
    then show ?thesis
      using assms(2) finish_flag_mountable[OF assms(1)] finish_flag_length[OF assms(2)] by simp
  next
    case False
    then show ?thesis using assms(2) by (simp add: finish_flag_def)
  qed
  then show "cache s4 \<noteq> Unmountable" and "\<not> bAutoUpdateComplete s4"
    and "p \<noteq> FLAG_FILE \<Longrightarrow> files s4 p = files s p"
    and "tmplog_offset s4 = tmplog_offset s"
    and "locale' s4 = locale' s"
    and "bClearbootmessage s4 = bClearbootmessage s"
    and "bcb s4 = bcb s"
    using assms(1) by (simp_all split: if_splits)
qed

lemma unlink_frame:
  assumes "cache s \<noteq> Unmountable"
  shows "cache (finish_unlink s) = Unmounted" and "files (finish_unlink s) COMMAND_FILE = None"
    and "p \<noteq> COMMAND_FILE \<Longrightarrow> files (finish_unlink s) p = files s p"
    and "tmplog_offset (finish_unlink s) = tmplog_offset s"
    and "locale' (finish_unlink s) = locale' s"
    and "bClearbootmessage (finish_unlink s) = bClearbootmessage s"
    and "bAutoUpdateComplete (finish_unlink s) = bAutoUpdateComplete s"
    and "bcb (finish_unlink s) = bcb s"
  using assms by (simp_all add: finish_unlink_mountable)


lemma finish_recovery_mountable:
  assumes "finish_recovery si s = Inr s'" "cache s \<noteq> Unmountable"
  shows "finished si s' \<and> cache s' = Unmounted \<and> files s' COMMAND_FILE = None \<and>
         bcb s' = (if bClearbootmessage s then bcb s else memset_zero (bcb s)) \<and>
         files s' TEMPORARY_LOG_FILE = files s TEMPORARY_LOG_FILE \<and>
         (\<exists>f. files s' LOG_FILE = Some f \<and>
              f_data f = (case files s LOG_FILE of None \<Rightarrow> [] | Some g \<Rightarrow> f_data g) @
                         (case files s TEMPORARY_LOG_FILE of None \<Rightarrow> []
                          | Some t \<Rightarrow> copy_lines (drop (tmplog_offset s) (f_data t))))"
proof -
  let ?s1 = "finish_intent si s"
  note i = intent_frame[OF assms(2), where si = si]
  obtain s2 where s2: "finish_locale ?s1 = Inr s2" "cache s2 \<noteq> Unmountable"
      "\<forall>l. locale' s2 = Some l \<longrightarrow> (\<exists>f. files s2 LOCALE_FILE = Some f \<and> f_data f = l)"
      "\<forall>p. p \<noteq> LOCALE_FILE \<longrightarrow> files s2 p = files ?s1 p"
      "tmplog_offset s2 = tmplog_offset ?s1" "locale' s2 = locale' ?s1"
      "bClearbootmessage s2 = bClearbootmessage ?s1"
      "bAutoUpdateComplete s2 = bAutoUpdateComplete ?s1" "bcb s2 = bcb ?s1"
    using locale_frame[OF i(1)] by blast
  let ?s3 = "finish_bcb (finish_logs s2)"
  note g = logs_frame[OF s2(2)]
  note b = bcb_frame[of "finish_logs s2"]
  have c3: "cache ?s3 \<noteq> Unmountable" using g(1) b(1) by simp
  obtain s4 where s4: "finish_flag ?s3 = Inr s4" and s': "s' = finish_unlink s4"
    using assms(1) s2(1) by (auto simp: finish_recovery_def split: sum.splits)
  note f = flag_frame[OF c3 s4]
  note u = unlink_frame[OF f(1)]
  have ne: "INTENT_FILE \<noteq> LOCALE_FILE" "INTENT_FILE \<noteq> LOG_FILE" "INTENT_FILE \<noteq> LAST_LOG_FILE"
      "INTENT_FILE \<noteq> LAST_INSTALL_FILE" "INTENT_FILE \<noteq> FLAG_FILE" "INTENT_FILE \<noteq> COMMAND_FILE"
      "LOCALE_FILE \<noteq> LOG_FILE" "LOCALE_FILE \<noteq> LAST_LOG_FILE" "LOCALE_FILE \<noteq> LAST_INSTALL_FILE"
      "LOCALE_FILE \<noteq> FLAG_FILE" "LOCALE_FILE \<noteq> COMMAND_FILE"
      "LOG_FILE \<noteq> FLAG_FILE" "LOG_FILE \<noteq> COMMAND_FILE" "LOG_FILE \<noteq> INTENT_FILE" "LOG_FILE \<noteq> LOCALE_FILE"
      "LAST_LOG_FILE \<noteq> FLAG_FILE" "LAST_LOG_FILE \<noteq> COMMAND_FILE"
      "LAST_INSTALL_FILE \<noteq> FLAG_FILE" "LAST_INSTALL_FILE \<noteq> COMMAND_FILE"
      "TEMPORARY_LOG_FILE \<noteq> INTENT_FILE" "TEMPORARY_LOG_FILE \<noteq> LOCALE_FILE" "TEMPORARY_LOG_FILE \<noteq> LOG_FILE"
      "TEMPORARY_LOG_FILE \<noteq> LAST_LOG_FILE" "TEMPORARY_LOG_FILE \<noteq> LAST_INSTALL_FILE"
      "TEMPORARY_LOG_FILE \<noteq> FLAG_FILE" "TEMPORARY_LOG_FILE \<noteq> COMMAND_FILE"
      "TEMPORARY_INSTALL_FILE \<noteq> INTENT_FILE" "TEMPORARY_INSTALL_FILE \<noteq> LOCALE_FILE"
      "TEMPORARY_INSTALL_FILE \<noteq> LOG_FILE"
      "TEMPORARY_INSTALL_FILE \<noteq> LAST_LOG_FILE" "TEMPORARY_INSTALL_FILE \<noteq> LAST_INSTALL_FILE"
      "TEMPORARY_INSTALL_FILE \<noteq> FLAG_FILE" "TEMPORARY_INSTALL_FILE \<noteq> COMMAND_FILE"
    by (simp_all add: path_defs)
  \<comment> \<open>the files of the result, traced back\<close>
  have tmp: "files s' TEMPORARY_LOG_FILE = files s2 TEMPORARY_LOG_FILE"
      "files s' TEMPORARY_INSTALL_FILE = files s2 TEMPORARY_INSTALL_FILE"
    unfolding s' using ne by (simp_all add: u(3) f(3) b(2) g(6))
  have tmp0: "files s2 TEMPORARY_LOG_FILE = files s TEMPORARY_LOG_FILE" "files s2 LOG_FILE = files s LOG_FILE"
    using ne s2(4) by (simp_all add: i(3))
  have off: "tmplog_offset s' = tmplog_offset (finish_logs s2)" "tmplog_offset s2 = tmplog_offset s"
    unfolding s' by (simp_all add: u(4) f(4) b(3) s2(5) i(4))
  have loc: "locale' s' = locale' s2"
    unfolding s' by (simp add: u(5) f(5) b(4) g(7))
  have F1: "\<forall>i. si = Some i \<longrightarrow> (\<exists>f. files s' INTENT_FILE = Some f \<and> f_data f = i)"
  proof -
    have "files s' INTENT_FILE = files ?s1 INTENT_FILE"
      unfolding s' using ne s2(4) by (simp add: u(3) f(3) b(2) g(6))
    then show ?thesis using i(2) by simp
  qed
  have F2: "\<forall>l. locale' s' = Some l \<longrightarrow> (\<exists>f. files s' LOCALE_FILE = Some f \<and> f_data f = l)"
  proof -
    have "files s' LOCALE_FILE = files s2 LOCALE_FILE"
      unfolding s' using ne by (simp add: u(3) f(3) b(2) g(6))
    then show ?thesis using s2(3) loc by simp
  qed
  have same: "files s' LOG_FILE = files (finish_logs s2) LOG_FILE"
      "files s' LAST_LOG_FILE = files (finish_logs s2) LAST_LOG_FILE"
      "files s' LAST_INSTALL_FILE = files (finish_logs s2) LAST_INSTALL_FILE"
    unfolding s' using ne by (simp_all add: u(3) f(3) b(2))
  have F3: "\<exists>f. files s' LOG_FILE = Some f \<and> f_mode f = 6 * 64 \<and> f_owner f = (1000, 1000)"
    using g(2) same(1) by auto
  have F4: "\<forall>x. files s' TEMPORARY_LOG_FILE = Some x \<longrightarrow> length (f_data x) \<le> tmplog_offset s'"
    using g(3) tmp(1) off(1) by simp
  have F5: "\<exists>f. files s' LAST_LOG_FILE = Some f \<and> f_mode f = 6 * 64 + 4 * 8 \<and>
             f_data f = copied (files s' TEMPORARY_LOG_FILE)"
    using g(4) same(2) tmp(1) by simp
  have F6: "\<exists>f. files s' LAST_INSTALL_FILE = Some f \<and> f_mode f = 6 * 64 + 4 * 8 + 4 \<and>
             f_data f = copied (files s' TEMPORARY_INSTALL_FILE)"
    using g(5) same(3) tmp(2) by simp
  have F9: "files s' COMMAND_FILE = None" "cache s' = Unmounted"
    unfolding s' by (simp_all add: u(1,2))
  have A: "\<not> bAutoUpdateComplete s'"
    unfolding s' using f(2) by (simp add: u(7))
  have clr: "bClearbootmessage s' = bClearbootmessage s"
    unfolding s' by (simp add: u(6) f(6) b(5) g(8) s2(7) i(6))
  have B: "bcb s' = (if bClearbootmessage s then bcb s else memset_zero (bcb s))"
    unfolding s' by (simp add: u(8) f(7) b(7) g(8,10) s2(7,9) i(6,8))
  have Z: "\<not> bClearbootmessage s' \<longrightarrow> bcb s' = memset_zero (bcb s')"
    using B clr by (simp add: memset_zero_idem)
  have fin: "finished si s'"
    unfolding finished_def using A Z F1 F2 F3 F4 F5 F6 F9 by simp
  have LOG: "\<exists>f. files s' LOG_FILE = Some f \<and>
              f_data f = (case files s LOG_FILE of None \<Rightarrow> [] | Some g \<Rightarrow> f_data g) @
                         (case files s TEMPORARY_LOG_FILE of None \<Rightarrow> []
                          | Some t \<Rightarrow> copy_lines (drop (tmplog_offset s) (f_data t)))"
    using g(2) same(1) tmp0 off(2) by (auto split: option.splits)
  show ?thesis using fin F9 B tmp(1) tmp0(1) LOG by simp
qed


lemma fgets_split: "fgets n s = Some (line, rest) \<Longrightarrow> s = line @ rest"
proof -
  assume a: "fgets n s = Some (line, rest)"
  let ?pre = "takeWhile (\<lambda>c. c \<noteq> NL) (take (n - 1) s)"
  have l: "line = (if length ?pre < n - 1 \<and> length ?pre < length s then take (length ?pre + 1) s else ?pre)"
    and r: "rest = drop (length line) s"
    using a by (auto simp: fgets_def Let_def split: if_splits)
  have "?pre = take (length ?pre) (take (n - 1) s)" by (rule takeWhile_eq_take)
  moreover have "length ?pre \<le> length (take (n - 1) s)" by (rule length_takeWhile_le)
  ultimately have "?pre = take (length ?pre) s" by (simp add: min_def split: if_splits)
  then have "line = take (length line) s" using l by (auto split: if_splits)
  then show ?thesis using r by (metis append_take_drop_id)
qed

lemma copy_lines_NUL_free: "NUL \<notin> set s \<Longrightarrow> copy_lines s = s"
proof (induction s rule: copy_lines.induct)
  case (1 s)
  show ?case
  proof (cases "fgets 4096 s")
    case None
    then have "s = []" by (auto simp: fgets_def Let_def split: if_splits)
    then show ?thesis by (simp add: copy_lines_Nil)
  next
    case (Some x)
    obtain line rest where x: "x = (line, rest)" by (cases x) auto
    have sp: "s = line @ rest" using fgets_split Some x by simp
    then have nz: "NUL \<notin> set line" "NUL \<notin> set rest" using 1(2) by auto
    have "copy_lines rest = rest" using 1(1)[OF Some x[symmetric] nz(2)] .
    then show ?thesis using Some x sp nz(1)
      by (subst copy_lines.simps) (simp add: cstr_idem)
  qed
qed

lemma finish_recovery_returns:
  assumes "cache s \<noteq> Unmountable" "\<not> bAutoUpdateComplete s"
  shows "\<exists>s'. finish_recovery si s = Inr s'"
proof -
  let ?s1 = "finish_intent si s"
  note i = intent_frame[OF assms(1), where si = si]
  obtain s2 where s2: "finish_locale ?s1 = Inr s2" "cache s2 \<noteq> Unmountable"
      "bAutoUpdateComplete s2 = bAutoUpdateComplete ?s1"
    using locale_frame[OF i(1)] by blast
  have "\<not> bAutoUpdateComplete (finish_bcb (finish_logs s2))"
    using assms(2) s2(3) by (simp add: bcb_frame logs_frame[OF s2(2)] i(7))
  then have "finish_flag (finish_bcb (finish_logs s2)) = Inr (finish_bcb (finish_logs s2))"
    by (simp add: finish_flag_def)
  then show ?thesis using s2(1) by (simp add: finish_recovery_def)
qed

lemma finish_recovery_idem:
  assumes "finish_recovery si s = Inr s'"
  shows "finish_recovery si s' = Inr s'"
proof (cases "cache s = Unmountable")
  case True
  have s': "s' = finish_bcb s" "locale' s = None" "\<not> bAutoUpdateComplete s"
    using finish_recovery_unmountable[OF assms True] by simp_all
  have "finished si s'"
    using s' True by (simp add: finished_def bcb_frame memset_zero_idem)
  moreover have "cache s' = Unmountable" using s'(1) True by (simp add: bcb_frame)
  ultimately show ?thesis using finished_fixpoint[of si s'] by simp
next
  case False
  have "finished si s'" "cache s' = Unmounted"
    using finish_recovery_mountable[OF assms False] by simp_all
  then show ?thesis using finished_fixpoint[of si s'] by simp
qed

lemma finish_recovery_bcb:
  assumes "finish_recovery si s = Inr s'"
  shows "bcb s' = (if bClearbootmessage s then bcb s else memset_zero (bcb s))"
proof (cases "cache s = Unmountable")
  case True
  then show ?thesis using finish_recovery_unmountable[OF assms True] by (simp add: bcb_frame)
next
  case False
  then show ?thesis using finish_recovery_mountable[OF assms False] by simp
qed


lemma finish_recovery_unmountable_returns:
  assumes "cache s = Unmountable" "locale' s = None" "\<not> bAutoUpdateComplete s"
  shows "finish_recovery si s = Inr (finish_bcb s)"
proof -
  have c: "cache (finish_bcb s) = Unmountable" using assms(1) by (simp add: bcb_frame)
  have "finish_flag (finish_bcb s) = Inr (finish_bcb s)"
    using assms(3) by (simp add: finish_flag_def bcb_frame)
  then show ?thesis using assms c
    by (simp add: finish_recovery_def finish_intent_unmountable finish_locale_unmountable
        finish_logs_unmountable finish_unlink_unmountable)
qed

lemma finish_twice_once:
  "finish_recovery si s = Inr s' \<Longrightarrow> finish_twice si s = Inr s'"
  by (simp add: finish_twice_def finish_recovery_idem)

section \<open>Finishing a session\<close>

text \<open>
  Claim C2 (as amended). Whenever \<open>finish_recovery\<close> returns, a second call in the state
  it has left returns the very same state: the same files with the same bytes (the log
  among them), modes and owners, the same control block, the same globals; two calls in a
  row are one call. When the cache volume can be mounted, the command file is gone after
  the first call, the second \<open>unlink\<close> finds nothing to remove, and the volume is left
  unmounted. The control block is all zero after both calls when \<open>bClearbootmessage\<close> is
  false; when it is true, \<open>finish_recovery\<close> leaves the control block as it was.
\<close>

theorem finish_recovery_idempotent:
  assumes "finish_recovery send_intent s = Inr s'"
  shows "finish_recovery send_intent s' = Inr s' \<and>
         finish_twice send_intent s = Inr s' \<and>
         (cache s \<noteq> Unmountable \<longrightarrow> files s' COMMAND_FILE = None \<and> cache s' = Unmounted) \<and>
         bcb s' = (if bClearbootmessage s then bcb s else memset_zero (bcb s))"
  using finish_recovery_idem[OF assms] finish_twice_once[OF assms] finish_recovery_bcb[OF assms]
    finish_recovery_mountable[OF assms]
  by simp

theorem finish_recovery_idempotent_witness:
  "map_sum id (\<lambda>t. (map_option f_data (files t LOG_FILE), files t COMMAND_FILE, bcb t))
     (finish_twice (Some ''intent'') example_state)
     = Inr (Some (''Starting recovery'' @ [NL] @ ''Formatting /cache...'' @ [NL]), None,
            zero_bcb 32 32 1024)"
proof -
  have m: "cache example_state \<noteq> Unmountable" "\<not> bAutoUpdateComplete example_state"
      "\<not> bClearbootmessage example_state"
    by (simp_all add: example_state_def)
  obtain s1 where r: "finish_recovery (Some ''intent'') example_state = Inr s1"
    using finish_recovery_returns[OF m(1,2)] by blast
  have t: "finish_twice (Some ''intent'') example_state = Inr s1"
      "files s1 COMMAND_FILE = None" "bcb s1 = memset_zero (bcb example_state)"
    using finish_recovery_idempotent[OF r] m by simp_all
  have z: "memset_zero (bcb example_state) = zero_bcb 32 32 1024"
    by (simp add: example_state_def memset_zero_def zero_bcb_def)
  have old: "files example_state LOG_FILE =
      Some \<lparr>f_data = ''Starting recovery'' @ [NL], f_mode = 6 * 64, f_owner = (1000, 1000)\<rparr>"
    and tmp: "files example_state TEMPORARY_LOG_FILE =
      Some \<lparr>f_data = ''Starting recovery'' @ [NL] @ ''Formatting /cache...'' @ [NL],
            f_mode = 6 * 64 + 4 * 8 + 4, f_owner = (0, 0)\<rparr>"
    and off: "tmplog_offset example_state = 18"
    by (simp_all add: example_state_def path_defs)
  have cp: "copy_lines (''Formatting /cache...'' @ [NL]) = ''Formatting /cache...'' @ [NL]"
    by (rule copy_lines_NUL_free) simp
  obtain f where f: "files s1 LOG_FILE = Some f"
      "f_data f = (case files example_state LOG_FILE of None \<Rightarrow> [] | Some g \<Rightarrow> f_data g) @
                  (case files example_state TEMPORARY_LOG_FILE of None \<Rightarrow> []
                   | Some t \<Rightarrow> copy_lines (drop (tmplog_offset example_state) (f_data t)))"
    using finish_recovery_mountable[OF r m(1)] by blast
  have "f_data f = ''Starting recovery'' @ [NL] @ ''Formatting /cache...'' @ [NL]"
    using f(2) cp unfolding old tmp off by simp
  then show ?thesis using t z f(1) by simp
qed

theorem finish_recovery_idempotent_counterexample:
  "map_sum id (\<lambda>t. command (bcb t))
     (finish_twice None (example_state\<lparr>bClearbootmessage := True\<rparr>))
     = Inr (''boot-recovery'' @ replicate 19 NUL) \<and>
   map_sum id (\<lambda>t. map_option f_data (files t COMMAND_FILE))
     (finish_twice None (example_state\<lparr>cache := Unmountable, locale' := None\<rparr>))
     = Inr (Some (''--wipe_cache'' @ [NL]))"
proof -
  let ?a = "example_state\<lparr>bClearbootmessage := True\<rparr>"
  let ?b = "example_state\<lparr>cache := Unmountable, locale' := None\<rparr>"
  have ma: "cache ?a \<noteq> Unmountable" "\<not> bAutoUpdateComplete ?a" "bClearbootmessage ?a"
    by (simp_all add: example_state_def)
  obtain s1 where r: "finish_recovery None ?a = Inr s1"
    using finish_recovery_returns[OF ma(1,2)] by blast
  have "bcb s1 = bcb ?a" using finish_recovery_bcb[OF r] ma(3) by simp
  then have "command (bcb s1) = ''boot-recovery'' @ replicate 19 NUL"
    by (simp add: example_state_def)
  then have c1: "map_sum id (\<lambda>t. command (bcb t)) (finish_twice None ?a)
      = Inr (''boot-recovery'' @ replicate 19 NUL)"
    using finish_twice_once[OF r] by simp
  have mb: "cache ?b = Unmountable" "locale' ?b = None" "\<not> bAutoUpdateComplete ?b"
    by (simp_all add: example_state_def)
  have r2: "finish_recovery None ?b = Inr (finish_bcb ?b)"
    using finish_recovery_unmountable_returns[OF mb] .
  have "files (finish_bcb ?b) COMMAND_FILE =
      Some \<lparr>f_data = ''--wipe_cache'' @ [NL], f_mode = 6 * 64 + 4 * 8 + 4, f_owner = (1000, 1000)\<rparr>"
    by (simp add: bcb_frame example_state_def path_defs)
  then have c2: "map_sum id (\<lambda>t. map_option f_data (files t COMMAND_FILE)) (finish_twice None ?b)
     = Inr (Some (''--wipe_cache'' @ [NL]))"
    using finish_twice_once[OF r2] by simp
  show ?thesis using c1 c2 by blast
qed


section \<open>Erasing a volume\<close>

lemma erase_volume_cache_state:
  "snd (erase_volume fmt ''/cache'' s) =
     s\<lparr>tmplog_offset := 0,
       files := fst (snd (fmt ''/cache'' (files s, if cache s = Mounted then Unmounted else cache s))),
       cache := snd (snd (fmt ''/cache'' (files s, if cache s = Mounted then Unmounted else cache s)))\<rparr>"
  by (simp add: erase_volume_def ensure_path_unmounted_def on_cache_def Let_def split: prod.splits)

lemma erase_then_copy:
  assumes "s1 = snd (erase_volume fmt ''/cache'' s)" "cache s1 \<noteq> Unmountable"
    and "files s1 TEMPORARY_LOG_FILE = Some t"
  shows "\<exists>f. files (copy_log_file TEMPORARY_LOG_FILE LOG_FILE True s1) LOG_FILE = Some f \<and>
             f_data f = (case files s1 LOG_FILE of None \<Rightarrow> [] | Some g \<Rightarrow> f_data g) @ copy_lines (f_data t)"
    and "tmplog_offset (copy_log_file TEMPORARY_LOG_FILE LOG_FILE True s1) = length (f_data t)"
proof -
  have o: "tmplog_offset s1 = 0" using assms(1) by (simp add: erase_volume_cache_state)
  show "\<exists>f. files (copy_log_file TEMPORARY_LOG_FILE LOG_FILE True s1) LOG_FILE = Some f \<and>
             f_data f = (case files s1 LOG_FILE of None \<Rightarrow> [] | Some g \<Rightarrow> f_data g) @ copy_lines (f_data t)"
    using assms(2,3) o
    by (simp add: copy_log_file_a on_cache_paths appended_def split: option.splits)
  show "tmplog_offset (copy_log_file TEMPORARY_LOG_FILE LOG_FILE True s1) = length (f_data t)"
    using assms(2,3) o by (simp add: copy_log_file_a on_cache_paths)
qed

text \<open>
  Claim C4 (as amended). \<open>erase_volume("/cache")\<close> sets \<open>tmplog_offset\<close> to zero, whatever
  \<open>format_volume\<close> does and returns; erasing any other volume leaves it as it is. The
  next appending \<open>copy_log_file\<close> therefore reads the temporary log from byte 0: it
  appends every line of it, the bytes copied before the erase included, to what the
  format has left of the log, and sets the offset to the end of the temporary log.
\<close>

theorem erase_volume_log_offset:
  "tmplog_offset (snd (erase_volume format_volume ''/cache'' s)) = 0 \<and>
   (volume \<noteq> ''/cache'' \<longrightarrow>
      tmplog_offset (snd (erase_volume format_volume volume s)) = tmplog_offset s) \<and>
   (cache (snd (erase_volume format_volume ''/cache'' s)) \<noteq> Unmountable \<and>
    files (snd (erase_volume format_volume ''/cache'' s)) TEMPORARY_LOG_FILE = Some t \<longrightarrow>
      (\<exists>f. files (copy_log_file TEMPORARY_LOG_FILE LOG_FILE True
                    (snd (erase_volume format_volume ''/cache'' s))) LOG_FILE = Some f \<and>
           f_data f =
             (case files (snd (erase_volume format_volume ''/cache'' s)) LOG_FILE of
                None \<Rightarrow> [] | Some g \<Rightarrow> f_data g) @ copy_lines (f_data t)) \<and>
      tmplog_offset (copy_log_file TEMPORARY_LOG_FILE LOG_FILE True
                       (snd (erase_volume format_volume ''/cache'' s))) = length (f_data t))"
proof -
  have 1: "tmplog_offset (snd (erase_volume format_volume ''/cache'' s)) = 0"
    by (simp add: erase_volume_cache_state)
  have 2: "tmplog_offset (snd (erase_volume format_volume volume s)) = tmplog_offset s"
    if "volume \<noteq> ''/cache''"
    using that
    by (simp add: erase_volume_def ensure_path_unmounted_def Let_def split: prod.splits)
  show ?thesis using 1 2 erase_then_copy[OF refl, of format_volume s t] by blast
qed

lemma example_erased:
  "cache (snd (erase_volume format_wipes ''/cache'' example_state)) \<noteq> Unmountable"
  "files (snd (erase_volume format_wipes ''/cache'' example_state)) TEMPORARY_LOG_FILE =
     Some \<lparr>f_data = ''Starting recovery'' @ [NL] @ ''Formatting /cache...'' @ [NL],
           f_mode = 6 * 64 + 4 * 8 + 4, f_owner = (0, 0)\<rparr>"
  "files (snd (erase_volume format_wipes ''/cache'' example_state)) LOG_FILE = None"
  "cache (snd (erase_volume format_fails ''/cache'' example_state)) \<noteq> Unmountable"
  "files (snd (erase_volume format_fails ''/cache'' example_state)) TEMPORARY_LOG_FILE =
     Some \<lparr>f_data = ''Starting recovery'' @ [NL] @ ''Formatting /cache...'' @ [NL],
           f_mode = 6 * 64 + 4 * 8 + 4, f_owner = (0, 0)\<rparr>"
  "files (snd (erase_volume format_fails ''/cache'' example_state)) LOG_FILE =
     Some \<lparr>f_data = ''Starting recovery'' @ [NL], f_mode = 6 * 64, f_owner = (1000, 1000)\<rparr>"
  by (simp_all add: erase_volume_cache_state format_wipes_def format_fails_def example_state_def
      path_defs on_cache_def)

lemma example_log_copy:
  "copy_lines (''Starting recovery'' @ [NL] @ ''Formatting /cache...'' @ [NL])
     = ''Starting recovery'' @ [NL] @ ''Formatting /cache...'' @ [NL]"
  by (rule copy_lines_NUL_free) simp

theorem erase_volume_log_offset_witness:
  "map_option f_data
     (files (copy_log_file TEMPORARY_LOG_FILE LOG_FILE True
               (snd (erase_volume format_wipes ''/cache'' example_state))) LOG_FILE)
     = Some (''Starting recovery'' @ [NL] @ ''Formatting /cache...'' @ [NL]) \<and>
   tmplog_offset (copy_log_file TEMPORARY_LOG_FILE LOG_FILE True
                    (snd (erase_volume format_wipes ''/cache'' example_state))) = 39 \<and>
   tmplog_offset (snd (erase_volume format_wipes ''/data'' example_state)) = 18"
proof -
  have d: "''/data'' \<noteq> ''/cache''" by simp
  have "tmplog_offset (snd (erase_volume format_wipes ''/data'' example_state)) = tmplog_offset example_state"
    using erase_volume_log_offset[of format_wipes example_state "''/data''"] d by blast
  then have 3: "tmplog_offset (snd (erase_volume format_wipes ''/data'' example_state)) = 18"
    by (simp add: example_state_def)
  obtain f where f:
    "files (copy_log_file TEMPORARY_LOG_FILE LOG_FILE True
               (snd (erase_volume format_wipes ''/cache'' example_state))) LOG_FILE = Some f"
    "f_data f = (case files (snd (erase_volume format_wipes ''/cache'' example_state)) LOG_FILE of
                None \<Rightarrow> [] | Some g \<Rightarrow> f_data g) @
              copy_lines (''Starting recovery'' @ [NL] @ ''Formatting /cache...'' @ [NL])"
    and o: "tmplog_offset (copy_log_file TEMPORARY_LOG_FILE LOG_FILE True
                    (snd (erase_volume format_wipes ''/cache'' example_state)))
           = length (''Starting recovery'' @ [NL] @ ''Formatting /cache...'' @ [NL])"
    using erase_volume_log_offset[of format_wipes example_state _
        "\<lparr>f_data = ''Starting recovery'' @ [NL] @ ''Formatting /cache...'' @ [NL],
           f_mode = 6 * 64 + 4 * 8 + 4, f_owner = (0, 0)\<rparr>"] example_erased(1,2)
    by auto
  have "f_data f = ''Starting recovery'' @ [NL] @ ''Formatting /cache...'' @ [NL]"
    using f(2) example_log_copy by (simp add: example_erased(3))
  then show ?thesis using f(1) o 3 by simp
qed

theorem erase_volume_log_offset_counterexample:
  "tmplog_offset example_state = 18 \<and>
   map_option f_data (files example_state LOG_FILE) = Some (''Starting recovery'' @ [NL]) \<and>
   map_option f_data
     (files (copy_log_file TEMPORARY_LOG_FILE LOG_FILE True
               (snd (erase_volume format_wipes ''/cache'' example_state))) LOG_FILE)
     = Some (''Starting recovery'' @ [NL] @ ''Formatting /cache...'' @ [NL]) \<and>
   map_option f_data
     (files (copy_log_file TEMPORARY_LOG_FILE LOG_FILE True
               (snd (erase_volume format_fails ''/cache'' example_state))) LOG_FILE)
     = Some (''Starting recovery'' @ [NL] @ ''Starting recovery'' @ [NL] @ ''Formatting /cache...'' @ [NL])"
proof -
  have 1: "tmplog_offset example_state = 18"
      "map_option f_data (files example_state LOG_FILE) = Some (''Starting recovery'' @ [NL])"
    by (simp_all add: example_state_def path_defs)
  obtain f where f:
    "files (copy_log_file TEMPORARY_LOG_FILE LOG_FILE True
               (snd (erase_volume format_wipes ''/cache'' example_state))) LOG_FILE = Some f"
    "f_data f = (case files (snd (erase_volume format_wipes ''/cache'' example_state)) LOG_FILE of
                None \<Rightarrow> [] | Some g \<Rightarrow> f_data g) @
              copy_lines (f_data \<lparr>f_data = ''Starting recovery'' @ [NL] @ ''Formatting /cache...'' @ [NL],
           f_mode = 6 * 64 + 4 * 8 + 4, f_owner = (0, 0)\<rparr>)"
    using erase_then_copy(1)[OF refl example_erased(1,2)] by blast
  have 2: "f_data f = ''Starting recovery'' @ [NL] @ ''Formatting /cache...'' @ [NL]"
    using f(2) example_log_copy by (simp add: example_erased(3))
  obtain g where g:
    "files (copy_log_file TEMPORARY_LOG_FILE LOG_FILE True
               (snd (erase_volume format_fails ''/cache'' example_state))) LOG_FILE = Some g"
    "f_data g = (case files (snd (erase_volume format_fails ''/cache'' example_state)) LOG_FILE of
                None \<Rightarrow> [] | Some g \<Rightarrow> f_data g) @
              copy_lines (f_data \<lparr>f_data = ''Starting recovery'' @ [NL] @ ''Formatting /cache...'' @ [NL],
           f_mode = 6 * 64 + 4 * 8 + 4, f_owner = (0, 0)\<rparr>)"
    using erase_then_copy(1)[OF refl example_erased(4,5)] by blast
  have 3: "f_data g = ''Starting recovery'' @ [NL] @ ''Starting recovery'' @ [NL] @ ''Formatting /cache...'' @ [NL]"
    using g(2) example_log_copy by (simp add: example_erased(6))
  show ?thesis using 1 f(1) 2 g(1) 3 by simp
qed


section \<open>The FAT32 volume label\<close>

lemma read512_frame:
  "dev_img (snd (read512 d)) = dev_img d"
  "dev_trace (snd (read512 d)) = dev_trace d @ [Read (dev_pos d) 512]"
  by (simp_all add: read512_def Let_def)

lemma set_fat32_volumename_empty:
  "\<exists>r. set_fat32_volumename fuel env volume [] = Some r \<and>
       (case r of
          Inl f \<Rightarrow> f = OutOfBounds
        | Inr (iRet, d) \<Rightarrow>
            - 8 \<le> iRet \<and> iRet < 0 \<and> dev_img d = device_bytes env \<and>
            \<not> list_ex is_write (dev_trace d) \<and>
            (- 4 \<le> iRet \<longrightarrow> dev_trace d = []) \<and>
            (iRet \<le> - 5 \<longrightarrow>
               unmount_result env = 0 \<and>
               (\<exists>path. open_ok env path \<and> dev_trace d = [Open path, Read 0 512, Close])) \<and>
            (iRet = - 5 \<longrightarrow> length (take 512 (device_bytes env)) \<noteq> 512) \<and>
            (iRet = - 6 \<longrightarrow>
               length (take 512 (device_bytes env)) = 512 \<and>
               take 5 (drop 82 (take 512 (device_bytes env))) \<noteq> ''FAT32'') \<and>
            (iRet = - 7 \<longrightarrow>
               length (take 512 (device_bytes env)) = 512 \<and>
               take 5 (drop 82 (take 512 (device_bytes env))) = ''FAT32'' \<and>
               \<not> (get_u8 (take 512 (device_bytes env)) 510 = 85 \<and>
                  get_u8 (take 512 (device_bytes env)) 511 = 170)) \<and>
            (iRet = - 8 \<longrightarrow>
               length (take 512 (device_bytes env)) = 512 \<and>
               take 5 (drop 82 (take 512 (device_bytes env))) = ''FAT32'' \<and>
               get_u8 (take 512 (device_bytes env)) 510 = 85 \<and>
               get_u8 (take 512 (device_bytes env)) 511 = 170))"
  by (auto simp: set_fat32_volumename_def Let_def exit_closed_def read512_def is_write_def
      split: option.splits prod.splits)


lemma example_boot_sector_facts:
  "length example_boot_sector = 512"
  "take 5 (drop 82 example_boot_sector) = ''FAT32''"
  "get_u8 example_boot_sector 510 = 85"
  "get_u8 example_boot_sector 511 = 170"
  by (simp_all add: example_boot_sector_def get_u8_def nth_append)

lemma example_bad_sector_facts:
  "length example_bad_sector = 512"
  "take 5 (drop 82 example_bad_sector) \<noteq> ''FAT32''"
proof -
  show "length example_bad_sector = 512" by (simp add: example_bad_sector_def)
  have "take 5 (drop 82 example_bad_sector) = replicate 5 NUL"
    by (simp add: example_bad_sector_def)
  also have "\<dots> = [NUL, NUL, NUL, NUL, NUL]" by (simp add: numeral_eq_Suc)
  finally show "take 5 (drop 82 example_bad_sector) \<noteq> ''FAT32''" by simp
qed

lemma example_path:
  "strstr ''/dev/block/mtd/by-name/user'' ''/dev/block/mtd/by-name/'' = Some ''/dev/block/mtd/by-name/user''"
  "printf_d 7 = ''7''"
  by (simp_all add: printf_d_def)

lemma example_empty_name:
  "set_fat32_volumename fuel (example_fat_env example_boot_sector) ''/mnt/sdcard'' [] =
     Some (Inr (- 8, \<lparr>dev_img = example_boot_sector @ replicate 1024 NUL, dev_pos = 512,
                      dev_trace = [Open ''/dev/mtd/mtd7'', Read 0 512, Close]\<rparr>))"
  by (simp add: set_fat32_volumename_def example_fat_env_def example_path read512_def
      example_boot_sector_facts exit_closed_def Let_def)

lemma example_bad_empty_name:
  "set_fat32_volumename fuel (example_fat_env example_bad_sector) ''/mnt/sdcard'' [] =
     Some (Inr (- 6, \<lparr>dev_img = example_bad_sector @ replicate 1024 NUL, dev_pos = 512,
                      dev_trace = [Open ''/dev/mtd/mtd7'', Read 0 512, Close]\<rparr>))"
  by (simp add: set_fat32_volumename_def example_fat_env_def example_path read512_def
      example_bad_sector_facts exit_closed_def Let_def)


text \<open>
  Claim C6 (as amended). A call of \<open>set_fat32_volumename\<close> with a name of length 0
  always comes to an end without success and without writing to the device: it returns
  one of the error codes -1 to -8 (or overruns \<open>mtdName\<close> with a device name of 32 bytes
  or more), the bytes of the device are as they were, and no write is among the events.
  With -1 to -4 the device has not been touched. With -5 to -8 the volume has been
  unmounted and the device opened, its first 512 bytes read, and closed again. The test
  of the name is the last of the eight tests: -5 is a boot sector of fewer than 512
  bytes, -6 one without the mark "FAT32" at offset 82, -7 one with the mark and without
  the signature 0x55 0xAA at offset 510, and the name is rejected, with -8, only when the
  boot sector has been read whole and has both the mark and the signature.
\<close>

theorem set_fat32_volumename_empty_name:
  "\<exists>r. set_fat32_volumename fuel env volume [] = Some r \<and>
       (case r of
          Inl f \<Rightarrow> f = OutOfBounds
        | Inr (iRet, d) \<Rightarrow>
            - 8 \<le> iRet \<and> iRet < 0 \<and> dev_img d = device_bytes env \<and>
            \<not> list_ex is_write (dev_trace d) \<and>
            (- 4 \<le> iRet \<longrightarrow> dev_trace d = []) \<and>
            (iRet \<le> - 5 \<longrightarrow>
               unmount_result env = 0 \<and>
               (\<exists>path. open_ok env path \<and> dev_trace d = [Open path, Read 0 512, Close])) \<and>
            (iRet = - 5 \<longrightarrow> length (take 512 (device_bytes env)) \<noteq> 512) \<and>
            (iRet = - 6 \<longrightarrow>
               length (take 512 (device_bytes env)) = 512 \<and>
               take 5 (drop 82 (take 512 (device_bytes env))) \<noteq> ''FAT32'') \<and>
            (iRet = - 7 \<longrightarrow>
               length (take 512 (device_bytes env)) = 512 \<and>
               take 5 (drop 82 (take 512 (device_bytes env))) = ''FAT32'' \<and>
               \<not> (get_u8 (take 512 (device_bytes env)) 510 = 85 \<and>
                  get_u8 (take 512 (device_bytes env)) 511 = 170)) \<and>
            (iRet = - 8 \<longrightarrow>
               length (take 512 (device_bytes env)) = 512 \<and>
               take 5 (drop 82 (take 512 (device_bytes env))) = ''FAT32'' \<and>
               get_u8 (take 512 (device_bytes env)) 510 = 85 \<and>
               get_u8 (take 512 (device_bytes env)) 511 = 170))"
  by (rule set_fat32_volumename_empty)

theorem set_fat32_volumename_empty_name_witness:
  "(case set_fat32_volumename 0 (example_fat_env example_boot_sector) ''/mnt/sdcard'' [] of
      Some (Inr (iRet, d)) \<Rightarrow>
        iRet = - 8 \<and> dev_img d = example_boot_sector @ replicate 1024 NUL \<and>
        \<not> list_ex is_write (dev_trace d) \<and>
        dev_trace d = [Open ''/dev/mtd/mtd7'', Read 0 512, Close] \<and>
        take 5 (drop 82 (take 512 (device_bytes (example_fat_env example_boot_sector)))) = ''FAT32'' \<and>
        get_u8 (take 512 (device_bytes (example_fat_env example_boot_sector))) 510 = 85 \<and>
        get_u8 (take 512 (device_bytes (example_fat_env example_boot_sector))) 511 = 170
    | _ \<Rightarrow> False)"
  using set_fat32_volumename_empty_name[of 0 "example_fat_env example_boot_sector" "''/mnt/sdcard''"]
    example_empty_name[of 0]
  by simp

theorem set_fat32_volumename_empty_name_counterexample:
  "map_option (map_sum id (\<lambda>(iRet, d). (iRet, dev_trace d)))
     (set_fat32_volumename 0 (example_fat_env example_boot_sector) ''/mnt/sdcard'' [])
     = Some (Inr (- 8, [Open ''/dev/mtd/mtd7'', Read 0 512, Close])) \<and>
   map_option (map_sum id (\<lambda>(iRet, d). (iRet, dev_trace d)))
     (set_fat32_volumename 0 (example_fat_env example_bad_sector) ''/mnt/sdcard'' [])
     = Some (Inr (- 6, [Open ''/dev/mtd/mtd7'', Read 0 512, Close]))"
  by (simp add: example_empty_name example_bad_empty_name)

end
